theory Spec2Isabelle
  imports Main "HOL-Library.AList"
begin

section \<open>JavaScript values and strings\<close>

text \<open>
  The network monitor is JavaScript running inside Gecko. Strings are modelled as lists of
  8-bit characters (response bodies are binary strings, header values are byte strings).
  An exception is a value; a method that can throw returns the exception (if any) together
  with the state reached at that point, because mutations made before a \<^verbatim>\<open>throw\<close> persist.
\<close>

datatype js_error =
    Error string
  | TypeError string
  | XPCOMException nat
  | DOMException string

subsection \<open>Number to string: \<^verbatim>\<open>n + ''\<close>\<close>

definition digit_char :: "nat \<Rightarrow> char" where
  "digit_char d = ''0123456789'' ! d"

function string_of_nat :: "nat \<Rightarrow> string" where
  "string_of_nat n =
     (if n < 10 then [digit_char n]
      else string_of_nat (n div 10) @ [digit_char (n mod 10)])"
  by pat_completeness auto
termination
  by (relation "measure id") auto

declare string_of_nat.simps [simp del]

subsection \<open>\<^verbatim>\<open>String.prototype.split(/\s*\t*,\s*\t*/)\<close>\<close>

text \<open>
  \<^verbatim>\<open>\s\<close> matches, among the characters below 256, TAB, LF, VT, FF, CR, space and the
  no-break space. A match of \<^verbatim>\<open>\s*\t*,\s*\t*\<close> at a position is a (possibly empty) run of
  white space, a comma, and the whole run of white space after it. \<^verbatim>\<open>split\<close> scans from
  the left and cuts the string at every match; the pieces between the matches are the
  result.
\<close>

definition isWhiteSpace :: "char \<Rightarrow> bool" where
  "isWhiteSpace c = (of_char c \<in> set [9, 10, 11, 12, 13, 32, 160 :: nat])"

definition matchSeparator :: "string \<Rightarrow> string option" where
  "matchSeparator s =
     (case dropWhile isWhiteSpace s of
        [] \<Rightarrow> None
      | c # rest \<Rightarrow> if c = CHR '','' then Some (dropWhile isWhiteSpace rest) else None)"

lemma matchSeparator_shorter:
  "matchSeparator s = Some rest \<Longrightarrow> length rest < length s"
proof -
  assume m: "matchSeparator s = Some rest"
  then obtain c tl where d: "dropWhile isWhiteSpace s = c # tl"
    and r: "rest = dropWhile isWhiteSpace tl"
    by (auto simp: matchSeparator_def split: list.splits if_splits)
  have "length rest \<le> length tl"
    unfolding r by (rule length_dropWhile_le)
  moreover have "length (c # tl) \<le> length s"
    unfolding d [symmetric] by (rule length_dropWhile_le)
  ultimately show ?thesis by simp
qed

function splitLoop :: "string \<Rightarrow> string \<Rightarrow> string list" where
  "splitLoop piece [] = [rev piece]"
| "splitLoop piece (c # cs) =
     (case matchSeparator (c # cs) of
        Some rest \<Rightarrow> rev piece # splitLoop [] rest
      | None \<Rightarrow> splitLoop (c # piece) cs)"
  by pat_completeness auto
termination
  by (relation "measure (\<lambda>(piece, s). length s)")
     (auto dest: matchSeparator_shorter)

definition splitEncodings :: "string \<Rightarrow> string list" where
  "splitEncodings header = splitLoop [] header"

subsection \<open>\<^verbatim>\<open>btoa\<close>\<close>

definition base64Alphabet :: string where
  "base64Alphabet =
     ''ABCDEFGHIJKLMNOPQRSTUVWXYZabcdefghijklmnopqrstuvwxyz0123456789+/''"

definition base64Char :: "nat \<Rightarrow> char" where
  "base64Char i = base64Alphabet ! (i mod 64)"

fun btoa :: "string \<Rightarrow> string" where
  "btoa [] = []"
| "btoa [a] =
     (let x = (of_char a :: nat) in
      [base64Char (x div 4), base64Char ((x mod 4) * 16), CHR ''='', CHR ''=''])"
| "btoa [a, b] =
     (let x = (of_char a :: nat); y = (of_char b :: nat) in
      [base64Char (x div 4), base64Char ((x mod 4) * 16 + y div 16),
       base64Char ((y mod 16) * 4), CHR ''=''])"
| "btoa (a # b # c # rest) =
     (let x = (of_char a :: nat); y = (of_char b :: nat); z = (of_char c :: nat) in
      [base64Char (x div 4), base64Char ((x mod 4) * 16 + y div 16),
       base64Char ((y mod 16) * 4 + z div 64), base64Char (z mod 64)] @ btoa rest)"

section \<open>Channels\<close>

text \<open>
  An \<^verbatim>\<open>nsIHttpChannel\<close> is an object of the browser. The monitor reads the attributes
  below from it; \<open>availableResponse\<close> is \<open>None\<close> while \<^verbatim>\<open>responseStatus\<close>,
  \<^verbatim>\<open>responseStatusText\<close> and the response headers are not available (reading them
  throws). \<open>requestHeaders\<close> is what \<^verbatim>\<open>visitRequestHeaders\<close> visits.
\<close>

type_synonym header = "string \<times> string"

record ResponseHead =
  status :: nat
  statusText :: string
  headers :: "header list"

record HttpChannel =
  channelId :: nat
  isMainDocumentChannel :: bool
  isEncodedChannel :: bool
  contentEncodings :: bool
  applyConversion :: bool
  contentEncodingHeader :: string
  availableResponse :: "ResponseHead option"
  requestHeaders :: "header list"
  requestMethod :: string

section \<open>ResponseStorage\<close>

text \<open>
  \<^verbatim>\<open>_responses\<close> is a JavaScript \<^verbatim>\<open>Map\<close>: it iterates in the order in which its keys were
  first inserted, and \<^verbatim>\<open>set\<close> on a key that is present replaces the value in place. This
  is an association list with \<^const>\<open>AList.update\<close>. A stored response without the
  \<^verbatim>\<open>evicted\<close> property has \<open>evicted = False\<close>; one without \<^verbatim>\<open>encodings\<close> has
  \<open>encodings = None\<close>.
\<close>

record StoredResponse =
  body :: string
  evicted :: bool
  encodings :: "string list option"

record ResponseStorage =
  totalSize :: int
  maxResponseSize :: int
  maxTotalSize :: int
  responses :: "(string \<times> StoredResponse) list"

definition newResponseStorage :: "int \<Rightarrow> int \<Rightarrow> ResponseStorage" where
  "newResponseStorage maxTotal maxResponse =
     \<lparr>totalSize = 0, maxResponseSize = maxResponse, maxTotalSize = maxTotal, responses = []\<rparr>"

definition MAX_RESPONSE_STORAGE_SIZE :: int where
  "MAX_RESPONSE_STORAGE_SIZE = 100 * 1024 * 1024"

text \<open>The eviction loop of \<^verbatim>\<open>addResponseBody\<close>: \<^verbatim>\<open>for (let [requestId, response] of this._responses)\<close>.\<close>

fun evictLoop :: "int \<Rightarrow> int \<Rightarrow> (string \<times> StoredResponse) list
    \<Rightarrow> int \<times> (string \<times> StoredResponse) list" where
  "evictLoop running maxTotal [] = (running, [])"
| "evictLoop running maxTotal ((requestId, response) # rest) =
     (let running' = running - int (length (body response));
          response' = response\<lparr>body := [], evicted := True\<rparr>
      in if running' < maxTotal then (running', (requestId, response') # rest)
         else (case evictLoop running' maxTotal rest of
                 (t, rest') \<Rightarrow> (t, (requestId, response') # rest')))"

definition channelEncodings :: "HttpChannel \<Rightarrow> string list" where
  "channelEncodings httpChannel =
     (if isEncodedChannel httpChannel \<and> contentEncodings httpChannel
         \<and> \<not> applyConversion httpChannel
      then splitEncodings (contentEncodingHeader httpChannel)
      else [])"

definition addResponseBody :: "ResponseStorage \<Rightarrow> string \<Rightarrow> HttpChannel \<Rightarrow> string
    \<Rightarrow> ResponseStorage" where
  "addResponseBody s requestId httpChannel bytes =
     (if int (length bytes) > maxResponseSize s
      then s\<lparr>responses :=
               AList.update requestId \<lparr>body = [], evicted = True, encodings = None\<rparr>
                 (responses s)\<rparr>
      else
        (let stored = AList.update requestId
                        \<lparr>body = bytes, evicted = False,
                         encodings = Some (channelEncodings httpChannel)\<rparr>
                        (responses s);
             running = totalSize s + int (length bytes)
         in if running > maxTotalSize s
            then (case evictLoop running (maxTotalSize s) stored of
                    (t, stored') \<Rightarrow> s\<lparr>totalSize := t, responses := stored'\<rparr>)
            else s\<lparr>totalSize := running, responses := stored\<rparr>))"

text \<open>
  \<^verbatim>\<open>convertString(s, source, 'uncompressed')\<close> runs a stream converter of the browser. The
  converter service is a parameter: it yields the converted bytes, or the \<^verbatim>\<open>nsresult\<close> it
  throws (there is no converter for an unknown encoding).
\<close>

type_synonym converterService = "string \<Rightarrow> string \<Rightarrow> string \<Rightarrow> nat + string"

definition convertString :: "converterService \<Rightarrow> string \<Rightarrow> string \<Rightarrow> string
    \<Rightarrow> js_error + string" where
  "convertString scs s source dest =
     (case scs source dest s of Inl rv \<Rightarrow> Inl (XPCOMException rv) | Inr out \<Rightarrow> Inr out)"

fun decodeLoop :: "converterService \<Rightarrow> string \<Rightarrow> string list \<Rightarrow> js_error + string" where
  "decodeLoop scs result [] = Inr result"
| "decodeLoop scs result (encoding # rest) =
     (case convertString scs result encoding ''uncompressed'' of
        Inl e \<Rightarrow> Inl e
      | Inr result' \<Rightarrow> decodeLoop scs result' rest)"

record Base64Response =
  base64body :: string
  responseEvicted :: bool

definition notFoundMessage :: "string \<Rightarrow> string" where
  "notFoundMessage requestId = ''Request '' @ [CHR 0x22] @ requestId @ [CHR 0x22] @ '' is not found''"

definition getBase64EncodedResponse :: "converterService \<Rightarrow> ResponseStorage \<Rightarrow> string
    \<Rightarrow> js_error + Base64Response" where
  "getBase64EncodedResponse scs s requestId =
     (case map_of (responses s) requestId of
        None \<Rightarrow> Inl (Error (notFoundMessage requestId))
      | Some response \<Rightarrow>
          if evicted response then Inr \<lparr>base64body = [], responseEvicted = True\<rparr>
          else (case (case encodings response of
                        None \<Rightarrow> Inr (body response)
                      | Some encs \<Rightarrow> decodeLoop scs (body response) encs) of
                  Inl e \<Rightarrow> Inl e
                | Inr result \<Rightarrow> Inr \<lparr>base64body = btoa result, responseEvicted = False\<rparr>))"


section \<open>Error codes and \<^verbatim>\<open>errorMap\<close>\<close>

text \<open>
  \<^verbatim>\<open>Cr.NS_ERROR_*\<close> are the \<^verbatim>\<open>nsresult\<close> numbers of the browser.
\<close>

definition NS_ERROR_ABORT :: nat where "NS_ERROR_ABORT = 0x80004004"
definition NS_ERROR_FAILURE :: nat where "NS_ERROR_FAILURE = 0x80004005"
definition NS_ERROR_NOT_AVAILABLE :: nat where "NS_ERROR_NOT_AVAILABLE = 0x80040111"
definition NS_ERROR_CONNECTION_REFUSED :: nat where "NS_ERROR_CONNECTION_REFUSED = 0x804B000D"
definition NS_ERROR_NET_TIMEOUT :: nat where "NS_ERROR_NET_TIMEOUT = 0x804B000E"
definition NS_ERROR_OFFLINE :: nat where "NS_ERROR_OFFLINE = 0x804B0010"
definition NS_ERROR_PORT_ACCESS_NOT_ALLOWED :: nat where "NS_ERROR_PORT_ACCESS_NOT_ALLOWED = 0x804B0013"
definition NS_ERROR_NET_RESET :: nat where "NS_ERROR_NET_RESET = 0x804B0014"
definition NS_ERROR_UNKNOWN_HOST :: nat where "NS_ERROR_UNKNOWN_HOST = 0x804B001E"
definition NS_ERROR_NET_INTERRUPT :: nat where "NS_ERROR_NET_INTERRUPT = 0x804B0047"

text \<open>
  A JavaScript value, as far as \<^verbatim>\<open>abort\<close> handles one: the argument is a string (from the
  protocol) or a number (\<^verbatim>\<open>channelIntercepted\<close> passes \<^verbatim>\<open>Cr.NS_ERROR_OFFLINE\<close>), and
  \<^verbatim>\<open>errorMap[errorCode]\<close> is a number, \<^verbatim>\<open>undefined\<close>, or a member that the object literal
  inherits from \<^verbatim>\<open>Object.prototype\<close> (named here by its property name).
\<close>

datatype js_value =
    JSUndefined
  | JSNumber nat
  | JSString string
  | JSObject string

definition truthy :: "js_value \<Rightarrow> bool" where
  "truthy v = (case v of
                 JSUndefined \<Rightarrow> False
               | JSNumber n \<Rightarrow> n \<noteq> 0
               | JSString s \<Rightarrow> s \<noteq> []
               | JSObject _ \<Rightarrow> True)"

definition toPropertyKey :: "js_value \<Rightarrow> string" where
  "toPropertyKey v = (case v of
                        JSUndefined \<Rightarrow> ''undefined''
                      | JSNumber n \<Rightarrow> string_of_nat n
                      | JSString s \<Rightarrow> s
                      | JSObject _ \<Rightarrow> ''[object Object]'')"

definition errorMap :: "(string \<times> nat) list" where
  "errorMap =
     [(''aborted'', NS_ERROR_ABORT),
      (''accessdenied'', NS_ERROR_PORT_ACCESS_NOT_ALLOWED),
      (''addressunreachable'', NS_ERROR_UNKNOWN_HOST),
      (''blockedbyclient'', NS_ERROR_FAILURE),
      (''blockedbyresponse'', NS_ERROR_FAILURE),
      (''connectionaborted'', NS_ERROR_NET_INTERRUPT),
      (''connectionclosed'', NS_ERROR_FAILURE),
      (''connectionfailed'', NS_ERROR_FAILURE),
      (''connectionrefused'', NS_ERROR_CONNECTION_REFUSED),
      (''connectionreset'', NS_ERROR_NET_RESET),
      (''internetdisconnected'', NS_ERROR_OFFLINE),
      (''namenotresolved'', NS_ERROR_UNKNOWN_HOST),
      (''timedout'', NS_ERROR_NET_TIMEOUT),
      (''failed'', NS_ERROR_FAILURE)]"

text \<open>
  \<^verbatim>\<open>errorMap\<close> is an object literal, so a property read that finds no own property goes on
  to \<^verbatim>\<open>Object.prototype\<close>, whose members are functions (and, for \<^verbatim>\<open>__proto__\<close>, the
  prototype object itself).
\<close>

definition objectPrototypeProperties :: "string list" where
  "objectPrototypeProperties =
     [''constructor'', ''hasOwnProperty'', ''isPrototypeOf'', ''propertyIsEnumerable'',
      ''toLocaleString'', ''toString'', ''valueOf'', ''__proto__'',
      ''__defineGetter__'', ''__defineSetter__'', ''__lookupGetter__'', ''__lookupSetter__'']"

definition getProperty :: "(string \<times> nat) list \<Rightarrow> string \<Rightarrow> js_value" where
  "getProperty obj key =
     (case map_of obj key of
        Some v \<Rightarrow> JSNumber v
      | None \<Rightarrow> if key \<in> set objectPrototypeProperties
                then JSObject (''Object.prototype.'' @ key)
                else JSUndefined)"

section \<open>The objects of the monitor\<close>

text \<open>
  Objects are held in a store and named by references, since several objects point at the
  same \<^verbatim>\<open>NetworkRequest\<close>, \<^verbatim>\<open>PageNetwork\<close> or \<^verbatim>\<open>ResponseInterceptor\<close>. A channel is
  named by its identity as an object; \<open>channels\<close> gives the attributes read from it.
\<close>

type_synonym channel = nat
type_synonym requestRef = nat
type_synonym pageNetworkRef = nat
type_synonym interceptorRef = nat

record ResumedRequest =
  resumedMethod :: "string option"
  resumedHeaders :: "header list option"
  resumedPostData :: "string option"

record NetworkRequest =
  httpChannel :: channel
  requestId :: string
  navigationId :: "string option"
  redirectedFromId :: "string option"
  redirectedIndex :: nat
  pageNetwork :: "pageNetworkRef option"
  expectingInterception :: bool
  expectingResumedRequest :: "ResumedRequest option"
  sentOnResponse :: bool
  interceptedChannel :: "channel option"
  responseInterceptor :: "interceptorRef option"
  responseBodyChunks :: "string list option"

record InterceptedResponse =
  interceptedBody :: string
  interceptedHead :: ResponseHead

record ResponseInterceptor =
  originalRequest :: requestRef
  finalRequest :: requestRef
  responseChannel :: "channel option"
  interceptedResponse :: "InterceptedResponse option"

text \<open>
  \<open>browserContext\<close> is what \<^verbatim>\<open>pageNetwork._target.browserContext()\<close> returns;
  \<open>onlineOverride\<close> is its \<^verbatim>\<open>settings.onlineOverride\<close>.
\<close>

record BrowserContext =
  contextRequestInterceptionEnabled :: bool
  onlineOverride :: "string option"
  contextExtraHTTPHeaders :: "header list option"

record PageNetwork =
  extraHTTPHeaders :: "header list option"
  responseStorage :: ResponseStorage
  requestInterceptionEnabled :: bool
  interceptedRequests :: "(string \<times> requestRef) list"
  browserContext :: BrowserContext

text \<open>
  What the page network emits. Of the payloads, the fields computed by the monitor are
  kept: \<open>Request requestId isIntercepted redirectedFrom navigationId\<close>,
  \<open>Response requestId fromCache status statusText\<close>, \<open>RequestFinished requestId\<close> and
  \<open>RequestFailed requestId errorCode\<close>; the others (url, headers, timing, sizes) are
  copied from the channel.
\<close>

datatype Event =
    Request string bool "string option" "string option"
  | Response string bool nat string
  | RequestFinished string
  | RequestFailed string string

text \<open>The calls the monitor makes on channels, in order.\<close>

datatype ChannelCall =
    ResetInterceptionWithURI channel "string option"
  | CancelInterception channel js_value
  | SynthesizeStatus channel "nat option" "string option"
  | SynthesizeHeader channel string string
  | SetCookieStringFromHttp channel string
  | StartSynthesizedResponse channel string
  | FinishSynthesizedResponse channel
  | SetRequestHeader channel string string
  | SetRequestMethod channel string
  | ExplicitSetUploadStream channel string string

text \<open>
  \<open>findPageNetwork\<close> is \<^verbatim>\<open>NetworkObserver._findPageNetwork\<close> (the target registry's answer
  for a channel), \<open>atob\<close> the platform's base64 decoder and \<open>getNetworkErrorStatusText\<close>
  the helper that names an \<^verbatim>\<open>nsresult\<close>; \<open>isUploadChannel2\<close> tells whether a channel is an
  \<^verbatim>\<open>nsIUploadChannel2\<close>.

  Scope. The model covers the bookkeeping of the monitor: the identity of requests, the
  interception protocol, the events and the response storage. Of the class
  \<^verbatim>\<open>NetworkRequest\<close> the authentication prompts (\<^verbatim>\<open>nsIAuthPrompt2\<close>, \<^verbatim>\<open>getInterface\<close>) and
  the forwarding to the original listener and notification callbacks are not embedded:
  their exceptions are caught where they are called and they touch none of the fields
  above. \<^verbatim>\<open>responseHead\<close> reads a channel's response either completely or not at all
  (\<open>availableResponse\<close>).
\<close>

record World =
  requests :: "requestRef \<Rightarrow> NetworkRequest"
  requestCount :: nat
  pageNetworks :: "pageNetworkRef \<Rightarrow> PageNetwork"
  interceptors :: "interceptorRef \<Rightarrow> ResponseInterceptor"
  interceptorCount :: nat
  channelToRequest :: "channel \<Rightarrow> requestRef option"
  expectedRedirect :: "string \<Rightarrow> requestRef option"
  responseInterceptionChannels :: "channel set"
  channels :: "channel \<Rightarrow> HttpChannel"
  events :: "(pageNetworkRef \<times> Event) list"
  calls :: "ChannelCall list"
  findPageNetwork :: "channel \<Rightarrow> pageNetworkRef option"
  atob :: "string \<Rightarrow> js_error + string"
  getNetworkErrorStatusText :: "nat \<Rightarrow> string"
  isUploadChannel2 :: "channel \<Rightarrow> bool"

type_synonym outcome = "js_error option \<times> World"

definition andThen :: "outcome \<Rightarrow> (World \<Rightarrow> outcome) \<Rightarrow> outcome" where
  "andThen res f = (case res of (None, w) \<Rightarrow> f w | (Some e, w) \<Rightarrow> (Some e, w))"

definition updRequest :: "requestRef \<Rightarrow> (NetworkRequest \<Rightarrow> NetworkRequest) \<Rightarrow> World \<Rightarrow> World" where
  "updRequest r f w = w\<lparr>requests := (requests w)(r := f (requests w r))\<rparr>"

definition updPageNetwork :: "pageNetworkRef \<Rightarrow> (PageNetwork \<Rightarrow> PageNetwork) \<Rightarrow> World \<Rightarrow> World" where
  "updPageNetwork pn f w = w\<lparr>pageNetworks := (pageNetworks w)(pn := f (pageNetworks w pn))\<rparr>"

definition updInterceptor :: "interceptorRef \<Rightarrow> (ResponseInterceptor \<Rightarrow> ResponseInterceptor)
    \<Rightarrow> World \<Rightarrow> World" where
  "updInterceptor ic f w = w\<lparr>interceptors := (interceptors w)(ic := f (interceptors w ic))\<rparr>"

definition emit :: "pageNetworkRef \<Rightarrow> Event \<Rightarrow> World \<Rightarrow> World" where
  "emit pn ev w = w\<lparr>events := events w @ [(pn, ev)]\<rparr>"

definition call :: "ChannelCall \<Rightarrow> World \<Rightarrow> World" where
  "call c w = w\<lparr>calls := calls w @ [c]\<rparr>"


section \<open>Helper functions of the module\<close>

definition responseHead :: "HttpChannel \<Rightarrow> nat option \<Rightarrow> string option \<Rightarrow> ResponseHead" where
  "responseHead ch opt_statusCode opt_statusText =
     (case availableResponse ch of
        Some h \<Rightarrow> h
      | None \<Rightarrow> \<lparr>status = (case opt_statusCode of None \<Rightarrow> 0 | Some c \<Rightarrow> c),
                 statusText = (case opt_statusText of None \<Rightarrow> [] | Some t \<Rightarrow> t),
                 headers = []\<rparr>)"

definition appendExtraHTTPHeaders :: "channel \<Rightarrow> header list option \<Rightarrow> World \<Rightarrow> World" where
  "appendExtraHTTPHeaders ch hs w =
     (case hs of
        None \<Rightarrow> w
      | Some l \<Rightarrow> foldl (\<lambda>w' (name, value). call (SetRequestHeader ch name value) w') w l)"

text \<open>\<^verbatim>\<open>toLowerCase\<close> on the ASCII letters (header names are ASCII tokens).\<close>

definition lowerChar :: "char \<Rightarrow> char" where
  "lowerChar c =
     (case map_of (zip ''ABCDEFGHIJKLMNOPQRSTUVWXYZ'' ''abcdefghijklmnopqrstuvwxyz'') c of
        Some l \<Rightarrow> l
      | None \<Rightarrow> c)"

definition toLowerCase :: "string \<Rightarrow> string" where
  "toLowerCase s = map lowerChar s"

fun overriddenHeader :: "header list option \<Rightarrow> string \<Rightarrow> string \<Rightarrow> string" where
  "overriddenHeader None lowerCaseName defaultValue = defaultValue"
| "overriddenHeader (Some []) lowerCaseName defaultValue = defaultValue"
| "overriddenHeader (Some ((name, value) # rest)) lowerCaseName defaultValue =
     (if toLowerCase name = lowerCaseName then value
      else overriddenHeader (Some rest) lowerCaseName defaultValue)"

definition setPostData :: "channel \<Rightarrow> string \<Rightarrow> header list option \<Rightarrow> World \<Rightarrow> outcome" where
  "setPostData ch postData hs w =
     (if \<not> isUploadChannel2 w ch then (None, w)
      else (case atob w postData of
              Inl e \<Rightarrow> (Some e, w)
            | Inr bytes \<Rightarrow>
                (None,
                 call (ExplicitSetUploadStream ch bytes
                         (overriddenHeader hs ''content-type'' ''application/octet-stream''))
                   (call (SetRequestHeader ch ''content-length''
                            (overriddenHeader hs ''content-length'' [])) w))))"

section \<open>NetworkRequest: events\<close>

definition sendOnRequest :: "requestRef \<Rightarrow> bool \<Rightarrow> World \<Rightarrow> World" where
  "sendOnRequest r isIntercepted w =
     (case pageNetwork (requests w r) of
        None \<Rightarrow> w
      | Some pn \<Rightarrow>
          emit pn (Request (requestId (requests w r)) isIntercepted
                     (redirectedFromId (requests w r)) (navigationId (requests w r))) w)"

definition sendOnResponseImpl :: "requestRef \<Rightarrow> channel \<Rightarrow> bool \<Rightarrow> nat option \<Rightarrow> string option
    \<Rightarrow> World \<Rightarrow> World" where
  "sendOnResponseImpl r ch fromCache opt_statusCode opt_statusText w =
     (if sentOnResponse (requests w r) then w
      else
        (let w1 = updRequest r (\<lambda>q. q\<lparr>sentOnResponse := True\<rparr>) w
         in case pageNetwork (requests w1 r) of
              None \<Rightarrow> w1
            | Some pn \<Rightarrow>
                (let h = responseHead (channels w1 ch) opt_statusCode opt_statusText
                 in emit pn (Response (requestId (requests w1 r)) fromCache
                               (status h) (statusText h)) w1)))"

definition sendOnRequestFailedImpl :: "requestRef \<Rightarrow> nat \<Rightarrow> World \<Rightarrow> World" where
  "sendOnRequestFailedImpl r error w =
     (let w1 = (case pageNetwork (requests w r) of
                  None \<Rightarrow> w
                | Some pn \<Rightarrow>
                    emit pn (RequestFailed (requestId (requests w r))
                               (getNetworkErrorStatusText w error)) w)
      in w1\<lparr>channelToRequest := (channelToRequest w1)(httpChannel (requests w1 r) := None)\<rparr>)"

definition sendOnRequestFinishedImpl :: "requestRef \<Rightarrow> channel \<Rightarrow> World \<Rightarrow> World" where
  "sendOnRequestFinishedImpl r ch w =
     (let w1 = (case pageNetwork (requests w r) of
                  None \<Rightarrow> w
                | Some pn \<Rightarrow> emit pn (RequestFinished (requestId (requests w r))) w)
      in w1\<lparr>channelToRequest := (channelToRequest w1)(ch := None)\<rparr>)"

section \<open>ResponseInterceptor: the hooks called by a request\<close>

definition isRedirectResponse :: "World \<Rightarrow> channel \<Rightarrow> js_error + bool" where
  "isRedirectResponse w ch =
     (case availableResponse (channels w ch) of
        None \<Rightarrow> Inl (XPCOMException NS_ERROR_NOT_AVAILABLE)
      | Some h \<Rightarrow> Inr (300 \<le> status h \<and> status h < 400))"

text \<open>
  The channel an interceptor that has no upstream response yet looks at:
  \<^verbatim>\<open>(this._originalRequest === request) ? this._responseChannel : request.httpChannel\<close>.
\<close>

definition interceptorChannel :: "World \<Rightarrow> interceptorRef \<Rightarrow> requestRef \<Rightarrow> channel option" where
  "interceptorChannel w ic request =
     (if originalRequest (interceptors w ic) = request
      then responseChannel (interceptors w ic)
      else Some (httpChannel (requests w request)))"

definition interceptOnResponse :: "interceptorRef \<Rightarrow> requestRef \<Rightarrow> bool \<Rightarrow> nat option
    \<Rightarrow> string option \<Rightarrow> World \<Rightarrow> outcome" where
  "interceptOnResponse ic request fromCache opt_statusCode opt_statusText w =
     (case interceptedResponse (interceptors w ic) of
        Some _ \<Rightarrow>
          (None,
           sendOnResponseImpl (finalRequest (interceptors w ic))
             (httpChannel (requests w (originalRequest (interceptors w ic))))
             fromCache opt_statusCode opt_statusText w)
      | None \<Rightarrow>
          (case interceptorChannel w ic request of
             None \<Rightarrow> (Some (TypeError ''httpChannel is null''), w)
           | Some ch \<Rightarrow>
               (case isRedirectResponse w ch of
                  Inl e \<Rightarrow> (Some e, w)
                | Inr True \<Rightarrow>
                    (None, sendOnResponseImpl request ch fromCache opt_statusCode opt_statusText w)
                | Inr False \<Rightarrow> (None, w))))"

definition interceptOnRequestFinished :: "interceptorRef \<Rightarrow> requestRef \<Rightarrow> World \<Rightarrow> outcome" where
  "interceptOnRequestFinished ic request w =
     (case interceptedResponse (interceptors w ic) of
        Some _ \<Rightarrow>
          (None,
           sendOnRequestFinishedImpl (finalRequest (interceptors w ic))
             (httpChannel (requests w (originalRequest (interceptors w ic)))) w)
      | None \<Rightarrow>
          (case interceptorChannel w ic request of
             None \<Rightarrow> (Some (TypeError ''httpChannel is null''), w)
           | Some ch \<Rightarrow>
               (case isRedirectResponse w ch of
                  Inl e \<Rightarrow> (Some e, w)
                | Inr True \<Rightarrow> (None, sendOnRequestFinishedImpl request ch w)
                | Inr False \<Rightarrow> (None, w))))"

definition interceptOnRequestFailed :: "interceptorRef \<Rightarrow> nat \<Rightarrow> World \<Rightarrow> World" where
  "interceptOnRequestFailed ic error w =
     sendOnRequestFailedImpl (finalRequest (interceptors w ic)) error w"

text \<open>
  \<^verbatim>\<open>interceptAddResponseBody\<close> is only called by a request that has a page network; for one
  without, reading \<^verbatim>\<open>request._pageNetwork._responseStorage\<close> throws.
\<close>

definition interceptAddResponseBody :: "interceptorRef \<Rightarrow> requestRef \<Rightarrow> string \<Rightarrow> World \<Rightarrow> outcome" where
  "interceptAddResponseBody ic request bytes w =
     (let key = (case interceptedResponse (interceptors w ic) of
                   Some _ \<Rightarrow> finalRequest (interceptors w ic)
                 | None \<Rightarrow> request)
      in case pageNetwork (requests w request) of
           None \<Rightarrow> (Some (TypeError ''request._pageNetwork is undefined''), w)
         | Some pn \<Rightarrow>
             (None,
              updPageNetwork pn
                (\<lambda>p. p\<lparr>responseStorage :=
                          addResponseBody (responseStorage p) (requestId (requests w key))
                            (channels w (httpChannel (requests w request))) bytes\<rparr>) w))"

definition sendOnResponse :: "requestRef \<Rightarrow> bool \<Rightarrow> nat option \<Rightarrow> string option
    \<Rightarrow> World \<Rightarrow> outcome" where
  "sendOnResponse r fromCache opt_statusCode opt_statusText w =
     (case responseInterceptor (requests w r) of
        Some ic \<Rightarrow> interceptOnResponse ic r fromCache opt_statusCode opt_statusText w
      | None \<Rightarrow>
          (None,
           sendOnResponseImpl r (httpChannel (requests w r)) fromCache
             opt_statusCode opt_statusText w))"

definition sendOnRequestFailed :: "requestRef \<Rightarrow> nat \<Rightarrow> World \<Rightarrow> World" where
  "sendOnRequestFailed r error w =
     (case responseInterceptor (requests w r) of
        Some ic \<Rightarrow> interceptOnRequestFailed ic error w
      | None \<Rightarrow> sendOnRequestFailedImpl r error w)"

definition sendOnRequestFinished :: "requestRef \<Rightarrow> World \<Rightarrow> outcome" where
  "sendOnRequestFinished r w =
     (case responseInterceptor (requests w r) of
        Some ic \<Rightarrow> interceptOnRequestFinished ic r w
      | None \<Rightarrow> (None, sendOnRequestFinishedImpl r (httpChannel (requests w r)) w))"


section \<open>NetworkRequest: the interception API\<close>

definition resume :: "requestRef \<Rightarrow> string option \<Rightarrow> string option \<Rightarrow> header list option
    \<Rightarrow> string option \<Rightarrow> World \<Rightarrow> outcome" where
  "resume r url method hs postData w =
     (let w1 = updRequest r
                 (\<lambda>q. q\<lparr>expectingResumedRequest :=
                          Some \<lparr>resumedMethod = method, resumedHeaders = hs,
                                resumedPostData = postData\<rparr>\<rparr>) w;
          newUri = (case url of None \<Rightarrow> None | Some u \<Rightarrow> if u = [] then None else Some u)
      in case interceptedChannel (requests w1 r) of
           None \<Rightarrow> (Some (TypeError ''this._interceptedChannel is undefined''), w1)
         | Some ic \<Rightarrow>
             (None,
              updRequest r (\<lambda>q. q\<lparr>interceptedChannel := None\<rparr>)
                (call (ResetInterceptionWithURI ic newUri) w1)))"

definition failWithErrorCode :: "requestRef \<Rightarrow> js_value \<Rightarrow> World \<Rightarrow> outcome" where
  "failWithErrorCode r error w =
     (case interceptedChannel (requests w r) of
        None \<Rightarrow> (Some (TypeError ''this._interceptedChannel is undefined''), w)
      | Some ic \<Rightarrow>
          (None,
           updRequest r (\<lambda>q. q\<lparr>interceptedChannel := None\<rparr>)
             (call (CancelInterception ic error) w)))"

definition abort :: "requestRef \<Rightarrow> js_value \<Rightarrow> World \<Rightarrow> outcome" where
  "abort r errorCode w =
     (let found = getProperty errorMap (toPropertyKey errorCode);
          error = (if truthy found then found else JSNumber NS_ERROR_FAILURE)
      in failWithErrorCode r error w)"

text \<open>The loop over the headers in \<^verbatim>\<open>fulfill\<close>.\<close>

fun synthesizeHeaders :: "channel \<Rightarrow> channel \<Rightarrow> header list \<Rightarrow> World \<Rightarrow> World" where
  "synthesizeHeaders ic ch [] w = w"
| "synthesizeHeaders ic ch ((name, value) # rest) w =
     (let w1 = call (SynthesizeHeader ic name value) w;
          w2 = (if toLowerCase name = ''set-cookie''
                then call (SetCookieStringFromHttp ch value) w1 else w1)
      in synthesizeHeaders ic ch rest w2)"

definition fulfill :: "requestRef \<Rightarrow> nat option \<Rightarrow> string option \<Rightarrow> header list option
    \<Rightarrow> string option \<Rightarrow> World \<Rightarrow> outcome" where
  "fulfill r status0 statusText0 headers0 base64 w =
     (case (case base64 of
              None \<Rightarrow> Inr []
            | Some b \<Rightarrow> if b = [] then Inr [] else atob w b) of
        Inl e \<Rightarrow> (Some e, w)
      | Inr bytes \<Rightarrow>
          (let originalResponse =
                 (case responseInterceptor (requests w r) of
                    None \<Rightarrow> None
                  | Some ic \<Rightarrow> interceptedResponse (interceptors w ic));
               status1 = (case originalResponse of
                            None \<Rightarrow> status0
                          | Some orig \<Rightarrow>
                              (case status0 of
                                 None \<Rightarrow> Some (status (interceptedHead orig))
                               | Some c \<Rightarrow> if c = 0 then Some (status (interceptedHead orig))
                                           else Some c));
               statusText1 = (case originalResponse of
                                None \<Rightarrow> statusText0
                              | Some orig \<Rightarrow>
                                  (case statusText0 of
                                     None \<Rightarrow> Some (statusText (interceptedHead orig))
                                   | Some t \<Rightarrow> if t = [] then Some (statusText (interceptedHead orig))
                                               else Some t));
               headers1 = (case originalResponse of
                             None \<Rightarrow> headers0
                           | Some orig \<Rightarrow>
                               (case headers0 of
                                  None \<Rightarrow> Some (headers (interceptedHead orig))
                                | Some hs \<Rightarrow> Some hs))
           in case interceptedChannel (requests w r) of
                None \<Rightarrow> (Some (TypeError ''this._interceptedChannel is undefined''), w)
              | Some ic \<Rightarrow>
                  (let w1 = call (SynthesizeStatus ic status1 statusText1) w
                   in case headers1 of
                        None \<Rightarrow> (Some (TypeError ''headers is not iterable''), w1)
                      | Some hs \<Rightarrow>
                          (let w2 = synthesizeHeaders ic (httpChannel (requests w1 r)) hs w1;
                               w3 = call (StartSynthesizedResponse ic bytes) w2;
                               w4 = call (FinishSynthesizedResponse ic) w3
                           in (None, updRequest r (\<lambda>q. q\<lparr>interceptedChannel := None\<rparr>) w4)))))"

section \<open>NetworkRequest: instrumentation called by the observer\<close>

definition onInternalRedirect :: "requestRef \<Rightarrow> channel \<Rightarrow> World \<Rightarrow> World" where
  "onInternalRedirect r newChannel w =
     (let w1 = w\<lparr>channelToRequest := (channelToRequest w)(httpChannel (requests w r) := None)\<rparr>;
          w2 = updRequest r (\<lambda>q. q\<lparr>httpChannel := newChannel\<rparr>) w1
      in w2\<lparr>channelToRequest := (channelToRequest w2)(newChannel \<mapsto> r)\<rparr>)"

definition onInternalRedirectReady :: "requestRef \<Rightarrow> World \<Rightarrow> outcome" where
  "onInternalRedirectReady r w =
     (case expectingResumedRequest (requests w r) of
        None \<Rightarrow> (None, w)
      | Some rq \<Rightarrow>
          (let ch = httpChannel (requests w r);
               w1 = updRequest r (\<lambda>q. q\<lparr>expectingResumedRequest := None\<rparr>) w;
               w2 = (case resumedHeaders rq of
                       None \<Rightarrow> w1
                     | Some hs \<Rightarrow>
                         foldl (\<lambda>w' (name, value). call (SetRequestHeader ch name value) w')
                           (foldl (\<lambda>w' (name, value). call (SetRequestHeader ch name []) w')
                              w1 (requestHeaders (channels w1 ch)))
                           hs);
               w3 = (case resumedMethod rq of
                       None \<Rightarrow> w2
                     | Some m \<Rightarrow> if m = [] then w2 else call (SetRequestMethod ch m) w2)
           in case resumedPostData rq of
                None \<Rightarrow> (None, w3)
              | Some pd \<Rightarrow> if pd = [] then (None, w3)
                           else setPostData ch pd (resumedHeaders rq) w3))"

section \<open>NetworkRequest: nsINetworkInterceptController\<close>

definition shouldIntercept :: "requestRef \<Rightarrow> World \<Rightarrow> bool" where
  "shouldIntercept r w =
     (case pageNetwork (requests w r) of
        None \<Rightarrow> False
      | Some pn \<Rightarrow>
          if requestInterceptionEnabled (pageNetworks w pn) then True
          else if contextRequestInterceptionEnabled (browserContext (pageNetworks w pn)) then True
          else if onlineOverride (browserContext (pageNetworks w pn)) = Some ''offline'' then True
          else False)"

text \<open>
  \<open>fallThrough\<close> tells whether there is a fall-through intercept controller (a service
  worker) and it prepares to intercept.
\<close>

definition shouldPrepareForIntercept :: "requestRef \<Rightarrow> bool \<Rightarrow> channel \<Rightarrow> World \<Rightarrow> bool \<times> World" where
  "shouldPrepareForIntercept r fallThrough ch w =
     (if fallThrough then (True, sendOnRequest r False w)
      else if ch \<noteq> httpChannel (requests w r) then (False, w)
      else if (case redirectedFromId (requests w r) of None \<Rightarrow> False | Some i \<Rightarrow> i \<noteq> [])
      then (False, w)
      else if \<not> shouldIntercept r w then (False, sendOnRequest r False w)
      else (True, updRequest r (\<lambda>q. q\<lparr>expectingInterception := True\<rparr>) w))"

definition channelIntercepted :: "requestRef \<Rightarrow> channel \<Rightarrow> World \<Rightarrow> outcome" where
  "channelIntercepted r intercepted w =
     (if \<not> expectingInterception (requests w r) then (None, w)
      else
        (let w1 = updRequest r
                    (\<lambda>q. q\<lparr>expectingInterception := False,
                            interceptedChannel := Some intercepted\<rparr>) w
         in case pageNetwork (requests w1 r) of
              None \<Rightarrow> resume r None None None None w1
            | Some pn \<Rightarrow>
                if onlineOverride (browserContext (pageNetworks w1 pn)) = Some ''offline''
                then abort r (JSNumber NS_ERROR_OFFLINE) w1
                else
                  (let interceptionEnabled = shouldIntercept r w1;
                       w2 = sendOnRequest r interceptionEnabled w1
                   in if interceptionEnabled
                      then (None,
                            updPageNetwork pn
                              (\<lambda>p. p\<lparr>interceptedRequests :=
                                        AList.update (requestId (requests w2 r)) r
                                          (interceptedRequests p)\<rparr>) w2)
                      else resume r None None None None w2)))"

section \<open>NetworkRequest: nsIStreamListener\<close>

definition onDataAvailable :: "requestRef \<Rightarrow> channel \<Rightarrow> string \<Rightarrow> World \<Rightarrow> outcome" where
  "onDataAvailable r aRequest bytes w =
     (if aRequest \<noteq> httpChannel (requests w r) then (None, w)
      else andThen (sendOnResponse r False None None w)
             (\<lambda>w1. case responseBodyChunks (requests w1 r) of
                      None \<Rightarrow> (Some (TypeError ''this._responseBodyChunks is undefined''), w1)
                    | Some chunks \<Rightarrow>
                        (None,
                         updRequest r
                           (\<lambda>q. q\<lparr>responseBodyChunks := Some (chunks @ [bytes])\<rparr>) w1)))"

definition onStartRequest :: "requestRef \<Rightarrow> channel \<Rightarrow> World \<Rightarrow> World" where
  "onStartRequest r aRequest w = w"

definition onStopRequest :: "requestRef \<Rightarrow> channel \<Rightarrow> nat \<Rightarrow> World \<Rightarrow> outcome" where
  "onStopRequest r aRequest aStatusCode w =
     (if aRequest \<noteq> httpChannel (requests w r) then (None, w)
      else
        andThen
          (if aStatusCode = 0
           then andThen (sendOnResponse r False None None w)
                  (\<lambda>w1. case responseBodyChunks (requests w1 r) of
                           None \<Rightarrow> (Some (TypeError ''this._responseBodyChunks is undefined''), w1)
                         | Some chunks \<Rightarrow>
                             andThen
                               (case pageNetwork (requests w1 r) of
                                  None \<Rightarrow> (None, w1)
                                | Some pn \<Rightarrow>
                                    (case responseInterceptor (requests w1 r) of
                                       Some ic \<Rightarrow> interceptAddResponseBody ic r (concat chunks) w1
                                     | None \<Rightarrow>
                                         (None,
                                          updPageNetwork pn
                                            (\<lambda>p. p\<lparr>responseStorage :=
                                                      addResponseBody (responseStorage p)
                                                        (requestId (requests w1 r))
                                                        (channels w1 (httpChannel (requests w1 r)))
                                                        (concat chunks)\<rparr>) w1)))
                               (sendOnRequestFinished r))
           else (None, sendOnRequestFailed r aStatusCode w))
          (\<lambda>w2. (None, updRequest r (\<lambda>q. q\<lparr>responseBodyChunks := None\<rparr>) w2)))"


section \<open>NetworkRequest: the constructor\<close>

text \<open>
  The fields a new request starts with. The four identity fields (\<open>requestId\<close>,
  \<open>navigationId\<close>, \<open>redirectedFromId\<close>, \<open>redirectedIndex\<close>) are assigned here and
  nowhere else.
\<close>

definition initialRequest :: "HttpChannel \<Rightarrow> channel \<Rightarrow> NetworkRequest option \<Rightarrow> NetworkRequest" where
  "initialRequest info ch redirectedFrom =
     (let baseId = string_of_nat (channelId info);
          q = \<lparr>httpChannel = ch,
               requestId = baseId,
               navigationId = (if isMainDocumentChannel info then Some baseId else None),
               redirectedFromId = None,
               redirectedIndex = 0,
               pageNetwork = None,
               expectingInterception = False,
               expectingResumedRequest = None,
               sentOnResponse = False,
               interceptedChannel = None,
               responseInterceptor = None,
               responseBodyChunks = None\<rparr>
      in case redirectedFrom of
           None \<Rightarrow> q
         | Some previous \<Rightarrow>
             q\<lparr>redirectedFromId := Some (requestId previous),
               redirectedIndex := redirectedIndex previous + 1,
               requestId := baseId @ ''-redirect'' @ string_of_nat (redirectedIndex previous + 1),
               navigationId := navigationId previous\<rparr>)"

text \<open>
  \<^verbatim>\<open>new NetworkRequest(networkObserver, httpChannel, redirectedFrom)\<close>; the new object is
  \<open>requestCount w\<close>. The listener and notification-callback plumbing on the channel is
  left out: no function of the model reads it back.
\<close>

definition newNetworkRequest :: "channel \<Rightarrow> requestRef option \<Rightarrow> World \<Rightarrow> outcome" where
  "newNetworkRequest ch redirectedFrom w =
     (let r = requestCount w;
          q = initialRequest (channels w ch) ch (map_option (requests w) redirectedFrom);
          w1 = w\<lparr>requestCount := r + 1,
                 channelToRequest := (channelToRequest w)(ch \<mapsto> r),
                 requests := (requests w)(r := q)\<rparr>
      in andThen
           (case redirectedFrom of
              None \<Rightarrow> (None, w1)
            | Some previous \<Rightarrow>
                andThen (sendOnRequestFinished previous w1)
                  (\<lambda>w2. (None,
                          case responseInterceptor (requests w2 previous) of
                            None \<Rightarrow> w2
                          | Some ic \<Rightarrow>
                              updInterceptor ic (\<lambda>i. i\<lparr>finalRequest := r\<rparr>)
                                (updRequest r (\<lambda>q'. q'\<lparr>responseInterceptor := Some ic\<rparr>) w2))))
           (\<lambda>w3.
              (let pn = (case redirectedFrom of
                           Some previous \<Rightarrow> pageNetwork (requests w3 previous)
                         | None \<Rightarrow> findPageNetwork w3 ch);
                   w4 = updRequest r (\<lambda>q'. q'\<lparr>pageNetwork := pn\<rparr>) w3;
                   w5 = (case pn of
                           None \<Rightarrow> w4
                         | Some p \<Rightarrow>
                             appendExtraHTTPHeaders ch (extraHTTPHeaders (pageNetworks w4 p))
                               (appendExtraHTTPHeaders ch
                                  (contextExtraHTTPHeaders (browserContext (pageNetworks w4 p)))
                                  w4));
                   w6 = updRequest r (\<lambda>q'. q'\<lparr>responseBodyChunks := Some []\<rparr>) w5
               in (None,
                   if (case redirectedFromId (requests w6 r) of None \<Rightarrow> False | Some i \<Rightarrow> i \<noteq> [])
                   then sendOnRequest r False w6 else w6))))"

section \<open>NetworkObserver\<close>

definition expectRedirect :: "string \<Rightarrow> requestRef \<Rightarrow> World \<Rightarrow> World" where
  "expectRedirect channelIdString previous w =
     w\<lparr>expectedRedirect := (expectedRedirect w)(channelIdString \<mapsto> previous)\<rparr>"

record RedirectFlags =
  REDIRECT_INTERNAL :: bool
  REDIRECT_STS_UPGRADE :: bool

definition onRedirect :: "channel \<Rightarrow> channel \<Rightarrow> RedirectFlags \<Rightarrow> World \<Rightarrow> outcome" where
  "onRedirect oldChannel newChannel flags w =
     (case channelToRequest w oldChannel of
        None \<Rightarrow> (None, w)
      | Some request \<Rightarrow>
          if REDIRECT_INTERNAL flags then (None, onInternalRedirect request newChannel w)
          else if REDIRECT_STS_UPGRADE flags
          then andThen (sendOnResponse request False (Some 307) (Some ''Temporary Redirect'') w)
                 (\<lambda>w1. (None,
                         expectRedirect (string_of_nat (channelId (channels w1 newChannel)))
                           request w1))
          else (None,
                expectRedirect (string_of_nat (channelId (channels w newChannel))) request w))"

definition onRequest :: "channel \<Rightarrow> World \<Rightarrow> outcome" where
  "onRequest ch w =
     (if ch \<in> responseInterceptionChannels w then (None, w)
      else
        (let channelIdString = string_of_nat (channelId (channels w ch))
         in case expectedRedirect w channelIdString of
              Some redirectedFrom \<Rightarrow>
                newNetworkRequest ch (Some redirectedFrom)
                  (w\<lparr>expectedRedirect := (expectedRedirect w)(channelIdString := None)\<rparr>)
            | None \<Rightarrow>
                (case channelToRequest w ch of
                   Some redirectedRequest \<Rightarrow> onInternalRedirectReady redirectedRequest w
                 | None \<Rightarrow> newNetworkRequest ch None w)))"

definition onResponse :: "bool \<Rightarrow> channel \<Rightarrow> World \<Rightarrow> outcome" where
  "onResponse fromCache ch w =
     (case channelToRequest w ch of
        None \<Rightarrow> (None, w)
      | Some request \<Rightarrow> sendOnResponse request fromCache None None w)"

section \<open>PageNetwork\<close>

definition newPageNetwork :: "BrowserContext \<Rightarrow> PageNetwork" where
  "newPageNetwork ctx =
     \<lparr>extraHTTPHeaders = None,
      responseStorage =
        newResponseStorage MAX_RESPONSE_STORAGE_SIZE (MAX_RESPONSE_STORAGE_SIZE div 10),
      requestInterceptionEnabled = False,
      interceptedRequests = [],
      browserContext = ctx\<rparr>"

definition enableRequestInterception :: "pageNetworkRef \<Rightarrow> World \<Rightarrow> World" where
  "enableRequestInterception pn w =
     updPageNetwork pn (\<lambda>p. p\<lparr>requestInterceptionEnabled := True\<rparr>) w"

text \<open>
  \<^verbatim>\<open>for (const intercepted of this._interceptedRequests.values()) intercepted.resume();\<close>
  An exception leaves the loop and the method.
\<close>

fun resumeAll :: "requestRef list \<Rightarrow> World \<Rightarrow> outcome" where
  "resumeAll [] w = (None, w)"
| "resumeAll (intercepted # rest) w =
     andThen (resume intercepted None None None None w) (resumeAll rest)"

definition disableRequestInterception :: "pageNetworkRef \<Rightarrow> World \<Rightarrow> outcome" where
  "disableRequestInterception pn w =
     (let w1 = updPageNetwork pn (\<lambda>p. p\<lparr>requestInterceptionEnabled := False\<rparr>) w
      in andThen (resumeAll (map snd (interceptedRequests (pageNetworks w1 pn))) w1)
           (\<lambda>w2. (None, updPageNetwork pn (\<lambda>p. p\<lparr>interceptedRequests := []\<rparr>) w2)))"

definition cannotFindMessage :: "string \<Rightarrow> string" where
  "cannotFindMessage rid = ''Cannot find request '' @ [CHR 0x22] @ rid @ [CHR 0x22]"

definition takeIntercepted :: "pageNetworkRef \<Rightarrow> string \<Rightarrow> World \<Rightarrow> (js_error + requestRef) \<times> World" where
  "takeIntercepted pn rid w =
     (case map_of (interceptedRequests (pageNetworks w pn)) rid of
        None \<Rightarrow> (Inl (Error (cannotFindMessage rid)), w)
      | Some intercepted \<Rightarrow>
          (Inr intercepted,
           updPageNetwork pn
             (\<lambda>p. p\<lparr>interceptedRequests := AList.delete rid (interceptedRequests p)\<rparr>) w))"

text \<open>\<^verbatim>\<open>resumeInterceptedRequest\<close> without \<^verbatim>\<open>interceptResponse\<close>.\<close>

definition resumeInterceptedRequest :: "pageNetworkRef \<Rightarrow> string \<Rightarrow> string option \<Rightarrow> string option
    \<Rightarrow> header list option \<Rightarrow> string option \<Rightarrow> World \<Rightarrow> outcome" where
  "resumeInterceptedRequest pn rid url method hs postData w =
     (case takeIntercepted pn rid w of
        (Inl e, w1) \<Rightarrow> (Some e, w1)
      | (Inr intercepted, w1) \<Rightarrow> resume intercepted url method hs postData w1)"

definition fulfillInterceptedRequest :: "pageNetworkRef \<Rightarrow> string \<Rightarrow> nat option \<Rightarrow> string option
    \<Rightarrow> header list option \<Rightarrow> string option \<Rightarrow> World \<Rightarrow> outcome" where
  "fulfillInterceptedRequest pn rid status0 statusText0 headers0 base64 w =
     (case takeIntercepted pn rid w of
        (Inl e, w1) \<Rightarrow> (Some e, w1)
      | (Inr intercepted, w1) \<Rightarrow> fulfill intercepted status0 statusText0 headers0 base64 w1)"

definition abortInterceptedRequest :: "pageNetworkRef \<Rightarrow> string \<Rightarrow> js_value \<Rightarrow> World \<Rightarrow> outcome" where
  "abortInterceptedRequest pn rid errorCode w =
     (case takeIntercepted pn rid w of
        (Inl e, w1) \<Rightarrow> (Some e, w1)
      | (Inr intercepted, w1) \<Rightarrow> abort intercepted errorCode w1)"

definition getResponseBody :: "converterService \<Rightarrow> pageNetworkRef \<Rightarrow> string \<Rightarrow> World
    \<Rightarrow> js_error + Base64Response" where
  "getResponseBody scs pn rid w =
     getBase64EncodedResponse scs (responseStorage (pageNetworks w pn)) rid"

section \<open>ResponseInterceptor: fetching the upstream response\<close>

text \<open>
  \<^verbatim>\<open>new ResponseInterceptor(intercepted).interceptResponse(url, method, headers, postData)\<close>
  runs up to its \<^verbatim>\<open>await\<close> in \<open>interceptResponseBegin\<close> (\<open>newChannel\<close> is the channel that
  \<^verbatim>\<open>NetUtil.newChannel\<close> made) and continues, when the fetch has ended, in
  \<open>interceptResponseEnd\<close>, with the body read or the failing status. The new interceptor
  is \<open>interceptorCount w\<close>.
\<close>

definition interceptResponseBegin :: "requestRef \<Rightarrow> channel \<Rightarrow> string option \<Rightarrow> header list option
    \<Rightarrow> string option \<Rightarrow> World \<Rightarrow> outcome" where
  "interceptResponseBegin request newChannel method hs postData w =
     (if responseInterceptor (requests w request) \<noteq> None
      then (Some (Error ''Already intercepting response for this request''), w)
      else
        (let ic = interceptorCount w;
             w1 = updRequest request (\<lambda>q. q\<lparr>responseInterceptor := Some ic\<rparr>)
                    (w\<lparr>interceptorCount := ic + 1,
                       interceptors := (interceptors w)
                         (ic := \<lparr>originalRequest = request, finalRequest = request,
                                 responseChannel = None, interceptedResponse = None\<rparr>)\<rparr>);
             ch = httpChannel (requests w1 request);
             w2 = foldl (\<lambda>w' (name, value). call (SetRequestHeader newChannel name value) w') w1
                    (case hs of None \<Rightarrow> requestHeaders (channels w1 ch) | Some l \<Rightarrow> l)
         in andThen
              (case postData of
                 None \<Rightarrow> (None, w2)
               | Some pd \<Rightarrow> if pd = [] then (None, w2) else setPostData newChannel pd hs w2)
              (\<lambda>w3.
                 (let m = (case method of
                             None \<Rightarrow> requestMethod (channels w3 ch)
                           | Some m' \<Rightarrow> if m' = [] then requestMethod (channels w3 ch) else m');
                      w4 = call (SetRequestMethod newChannel m) w3;
                      w5 = updInterceptor ic (\<lambda>i. i\<lparr>responseChannel := Some newChannel\<rparr>) w4
                  in (None,
                      w5\<lparr>responseInterceptionChannels :=
                            insert newChannel (responseInterceptionChannels w5),
                          channelToRequest := (channelToRequest w5)(newChannel \<mapsto> request)\<rparr>)))))"

definition interceptResponseEnd :: "interceptorRef \<Rightarrow> nat + string \<Rightarrow> World \<Rightarrow> outcome" where
  "interceptResponseEnd ic fetched w =
     (let original = originalRequest (interceptors w ic);
          w1 = (case responseChannel (interceptors w ic) of
                  None \<Rightarrow> w
                | Some newChannel \<Rightarrow>
                    w\<lparr>responseInterceptionChannels :=
                         responseInterceptionChannels w - {newChannel},
                       channelToRequest := (channelToRequest w)(newChannel := None)\<rparr>)
      in case fetched of
           Inl error \<Rightarrow>
             (let w2 = (case pageNetwork (requests w1 original) of
                          None \<Rightarrow> w1
                        | Some pn \<Rightarrow>
                            updPageNetwork pn
                              (\<lambda>p. p\<lparr>interceptedRequests :=
                                        AList.delete (requestId (requests w1 original))
                                          (interceptedRequests p)\<rparr>) w1)
              in failWithErrorCode original (JSNumber error) w2)
         | Inr bytes \<Rightarrow>
             (let final = finalRequest (interceptors w1 ic);
                  chosen = (if final = original then responseChannel (interceptors w1 ic)
                            else Some (httpChannel (requests w1 final)))
              in case chosen of
                   None \<Rightarrow> (Some (TypeError ''responseChannel is null''), w1)
                 | Some ch \<Rightarrow>
                     (let w2 = (case pageNetwork (requests w1 original) of
                                  None \<Rightarrow> w1
                                | Some pn \<Rightarrow>
                                    updPageNetwork pn
                                      (\<lambda>p. p\<lparr>responseStorage :=
                                                addResponseBody (responseStorage p)
                                                  (requestId (requests w1 final))
                                                  (channels w1 ch) bytes\<rparr>) w1)
                      in (None,
                          updInterceptor ic
                            (\<lambda>i. i\<lparr>interceptedResponse :=
                                      Some \<lparr>interceptedBody = bytes,
                                            interceptedHead =
                                              responseHead (channels w2 ch) None None\<rparr>\<rparr>) w2))))"

section \<open>Notions used in the statements, and concrete inputs\<close>

subsection \<open>Response storage\<close>

text \<open>
  The bytes an entry retains, and the total over a store: the sum of the body lengths of
  the entries that are not evicted.
\<close>

definition contribution :: "StoredResponse \<Rightarrow> int" where
  "contribution r = (if evicted r then 0 else int (length (body r)))"

definition retainedBytes :: "(string \<times> StoredResponse) list \<Rightarrow> int" where
  "retainedBytes rs = sum_list (map (\<lambda>(k, r). contribution r) rs)"

definition evictedEmpty :: "(string \<times> StoredResponse) list \<Rightarrow> bool" where
  "evictedEmpty rs = list_all (\<lambda>(k, r). if evicted r then body r = [] else True) rs"

definition evict :: "StoredResponse \<Rightarrow> StoredResponse" where
  "evict r = r\<lparr>body := [], evicted := True\<rparr>"

definition storeInv :: "ResponseStorage \<Rightarrow> bool" where
  "storeInv s = (evictedEmpty (responses s) \<and> retainedBytes (responses s) \<le> totalSize s
                 \<and> totalSize s \<le> maxTotalSize s)"

text \<open>A sequence of calls of \<^verbatim>\<open>addResponseBody\<close> on one store.\<close>

fun addAll :: "ResponseStorage \<Rightarrow> (string \<times> HttpChannel \<times> string) list \<Rightarrow> ResponseStorage" where
  "addAll s [] = s"
| "addAll s ((rid, ch, bytes) # rest) = addAll (addResponseBody s rid ch bytes) rest"

definition isEvicted :: "ResponseStorage \<Rightarrow> string \<Rightarrow> bool" where
  "isEvicted s rid =
     (case map_of (responses s) rid of None \<Rightarrow> False | Some r \<Rightarrow> evicted r)"

text \<open>
  What \<^verbatim>\<open>getBase64EncodedResponse\<close> answers for bytes stored with the encodings
  \<open>encs\<close>: the converters run over the bytes in the order of the list, and the result is
  base64-encoded.
\<close>

definition decoded :: "converterService \<Rightarrow> string \<Rightarrow> string list \<Rightarrow> js_error + Base64Response" where
  "decoded scs bytes encs =
     (case decodeLoop scs bytes encs of
        Inl e \<Rightarrow> Inl e
      | Inr result \<Rightarrow> Inr \<lparr>base64body = btoa result, responseEvicted = False\<rparr>)"

subsection \<open>Concrete channels and stores\<close>

definition plainChannel :: HttpChannel where
  "plainChannel =
     \<lparr>channelId = 7, isMainDocumentChannel = False, isEncodedChannel = False,
      contentEncodings = False, applyConversion = False, contentEncodingHeader = [],
      availableResponse = Some \<lparr>status = 200, statusText = ''OK'', headers = []\<rparr>,
      requestHeaders = [], requestMethod = ''GET''\<rparr>"

definition gzipChannel :: HttpChannel where
  "gzipChannel =
     \<lparr>channelId = 8, isMainDocumentChannel = False, isEncodedChannel = True,
      contentEncodings = True, applyConversion = False, contentEncodingHeader = ''gzip, br'',
      availableResponse = Some \<lparr>status = 200, statusText = ''OK'', headers = []\<rparr>,
      requestHeaders = [], requestMethod = ''GET''\<rparr>"

text \<open>
  A toy converter service: decoding an encoding strips the encoding's first letter from
  the front of the data, and fails (with \<^verbatim>\<open>NS_ERROR_FAILURE\<close>) on anything else.
\<close>

definition toyConverter :: converterService where
  "toyConverter source dest s =
     (case (source, s) of
        (e # _, c # rest) \<Rightarrow> if c = e then Inr rest else Inl 2147500037
      | _ \<Rightarrow> Inl 2147500037)"

definition exampleStore :: ResponseStorage where
  "exampleStore =
     \<lparr>totalSize = 7, maxResponseSize = 10, maxTotalSize = 100,
      responses = [(''1'', \<lparr>body = [], evicted = True, encodings = Some [''gzip'']\<rparr>),
                   (''2'', \<lparr>body = ''gbhello'', evicted = False,
                            encodings = Some [''gzip'', ''br'']\<rparr>)]\<rparr>"

subsection \<open>Redirect chains\<close>

text \<open>
  A redirect chain: the first request is constructed for a channel without
  \<^verbatim>\<open>redirectedFrom\<close>, every further one for the next channel with the request before it as
  \<^verbatim>\<open>redirectedFrom\<close>. A channel is given by its identity and its attributes.
\<close>

fun redirectChainFrom :: "NetworkRequest \<Rightarrow> (channel \<times> HttpChannel) list \<Rightarrow> NetworkRequest list" where
  "redirectChainFrom previous [] = []"
| "redirectChainFrom previous ((ch, info) # rest) =
     initialRequest info ch (Some previous)
       # redirectChainFrom (initialRequest info ch (Some previous)) rest"

definition redirectChain :: "channel \<times> HttpChannel \<Rightarrow> (channel \<times> HttpChannel) list
    \<Rightarrow> NetworkRequest list" where
  "redirectChain first rest =
     initialRequest (snd first) (fst first) None
       # redirectChainFrom (initialRequest (snd first) (fst first) None) rest"

text \<open>
  Following \<open>redirectedFromId\<close> by looking the id up among the requests, for at most
  \<open>fuel\<close> steps: the requests passed, starting with \<open>q\<close>.
\<close>

definition findRequest :: "NetworkRequest list \<Rightarrow> string \<Rightarrow> NetworkRequest option" where
  "findRequest rs rid = find (\<lambda>q. requestId q = rid) rs"

fun redirectedFromPath :: "nat \<Rightarrow> NetworkRequest list \<Rightarrow> NetworkRequest \<Rightarrow> NetworkRequest list" where
  "redirectedFromPath 0 rs q = [q]"
| "redirectedFromPath (Suc fuel) rs q =
     (case redirectedFromId q of
        None \<Rightarrow> [q]
      | Some rid \<Rightarrow>
          (case findRequest rs rid of
             None \<Rightarrow> [q]
           | Some p \<Rightarrow> q # redirectedFromPath fuel rs p))"

definition mainChannel :: HttpChannel where
  "mainChannel = plainChannel\<lparr>isMainDocumentChannel := True\<rparr>"

text \<open>The part of a request id from its first \<^verbatim>\<open>-\<close> on: the redirect suffix.\<close>

definition idSuffix :: "string \<Rightarrow> string" where
  "idSuffix rid = dropWhile (\<lambda>c. c \<noteq> CHR ''-'') rid"

subsection \<open>A small world\<close>

text \<open>
  A world with no request yet, in which every channel belongs to page network 0 of the
  given browser context. \<open>exampleErrorText\<close> stands for the helper that names an
  \<^verbatim>\<open>nsresult\<close> and \<open>exampleAtob\<close> for the platform's base64 decoder (it accepts every
  string and returns it as it is).
\<close>

definition exampleErrorText :: "nat \<Rightarrow> string" where
  "exampleErrorText rv =
     (if rv = NS_ERROR_OFFLINE then ''NS_ERROR_OFFLINE''
      else if rv = NS_ERROR_FAILURE then ''NS_ERROR_FAILURE''
      else if rv = NS_ERROR_ABORT then ''NS_ERROR_ABORT''
      else ''NS_ERROR_OTHER'')"

definition exampleAtob :: "string \<Rightarrow> js_error + string" where
  "exampleAtob s = Inr s"

definition onlineContext :: BrowserContext where
  "onlineContext =
     \<lparr>contextRequestInterceptionEnabled = False, onlineOverride = None,
      contextExtraHTTPHeaders = None\<rparr>"

definition offlineContext :: BrowserContext where
  "offlineContext = onlineContext\<lparr>onlineOverride := Some ''offline''\<rparr>"

definition interceptingContext :: BrowserContext where
  "interceptingContext = onlineContext\<lparr>contextRequestInterceptionEnabled := True\<rparr>"

definition exampleWorld :: "BrowserContext \<Rightarrow> (channel \<Rightarrow> HttpChannel) \<Rightarrow> World" where
  "exampleWorld ctx chans =
     \<lparr>requests = (\<lambda>_. initialRequest plainChannel 0 None),
      requestCount = 0,
      pageNetworks = (\<lambda>_. newPageNetwork ctx),
      interceptors = (\<lambda>_. \<lparr>originalRequest = 0, finalRequest = 0,
                              responseChannel = None, interceptedResponse = None\<rparr>),
      interceptorCount = 0,
      channelToRequest = (\<lambda>_. None),
      expectedRedirect = (\<lambda>_. None),
      responseInterceptionChannels = {},
      channels = chans,
      events = [],
      calls = [],
      findPageNetwork = (\<lambda>_. Some 0),
      atob = exampleAtob,
      getNetworkErrorStatusText = exampleErrorText,
      isUploadChannel2 = (\<lambda>_. True)\<rparr>"

text \<open>Running a list of steps; an exception ends the run.\<close>

fun runSteps :: "(World \<Rightarrow> outcome) list \<Rightarrow> World \<Rightarrow> outcome" where
  "runSteps [] w = (None, w)"
| "runSteps (step # rest) w = andThen (step w) (runSteps rest)"

text \<open>
  A request on channel 1 is announced, the interception controller is asked about it and
  the channel is intercepted (as intercepted channel 1).
\<close>

definition interceptedWorld :: "BrowserContext \<Rightarrow> (channel \<Rightarrow> HttpChannel) \<Rightarrow> outcome" where
  "interceptedWorld ctx chans =
     runSteps
       [onRequest 1,
        (\<lambda>w. (None, snd (shouldPrepareForIntercept 0 False 1 w))),
        channelIntercepted 0 1]
       (exampleWorld ctx chans)"

subsection \<open>Interception\<close>

text \<open>\<^verbatim>\<open>this._responseInterceptor?._interceptedResponse\<close>: the upstream response, if one was fetched.\<close>

definition upstreamResponse :: "World \<Rightarrow> requestRef \<Rightarrow> InterceptedResponse option" where
  "upstreamResponse w r =
     (case responseInterceptor (requests w r) of
        None \<Rightarrow> None
      | Some ic \<Rightarrow> interceptedResponse (interceptors w ic))"

text \<open>\<^verbatim>\<open>base64body ? atob(base64body) : ''\<close>.\<close>

definition decodeBody :: "World \<Rightarrow> string option \<Rightarrow> js_error + string" where
  "decodeBody w base64 =
     (case base64 of None \<Rightarrow> Inr [] | Some b \<Rightarrow> if b = [] then Inr [] else atob w b)"

text \<open>The calls that the loop over the headers in \<^verbatim>\<open>fulfill\<close> makes.\<close>

fun headerCalls :: "channel \<Rightarrow> channel \<Rightarrow> header list \<Rightarrow> ChannelCall list" where
  "headerCalls ic ch [] = []"
| "headerCalls ic ch ((name, value) # rest) =
     (if toLowerCase name = ''set-cookie''
      then [SynthesizeHeader ic name value, SetCookieStringFromHttp ch value]
      else [SynthesizeHeader ic name value]) @ headerCalls ic ch rest"

text \<open>
  Channel 2 answers with a response that sets a cookie; every other channel is the main
  document channel.
\<close>

definition cookieChannels :: "channel \<Rightarrow> HttpChannel" where
  "cookieChannels c =
     (if c = 2
      then plainChannel\<lparr>availableResponse :=
             Some \<lparr>status = 200, statusText = ''OK'',
                   headers = [(''Set-Cookie'', ''a=b'')]\<rparr>\<rparr>
      else mainChannel)"

text \<open>
  The intercepted request of \<open>interceptedWorld\<close>, after its upstream response has been
  fetched over channel 2.
\<close>

definition fetchedWorld :: outcome where
  "fetchedWorld =
     andThen (interceptedWorld interceptingContext cookieChannels)
       (runSteps
          [interceptResponseBegin 0 2 None None None,
           interceptResponseEnd 0 (Inr ''upstream'')])"

text \<open>
  What \<^verbatim>\<open>resume()\<close> without arguments leaves on a paused request: nothing to rewrite, and
  no intercepted channel any more.
\<close>

definition noOverride :: ResumedRequest where
  "noOverride = \<lparr>resumedMethod = None, resumedHeaders = None, resumedPostData = None\<rparr>"

definition passedThrough :: "NetworkRequest \<Rightarrow> NetworkRequest" where
  "passedThrough q = q\<lparr>expectingResumedRequest := Some noOverride, interceptedChannel := None\<rparr>"

text \<open>The requests of a page network that await an interception decision.\<close>

definition awaiting :: "World \<Rightarrow> pageNetworkRef \<Rightarrow> requestRef list" where
  "awaiting w pn = map snd (interceptedRequests (pageNetworks w pn))"

text \<open>Channel ids differ from channel to channel; every channel is a main document channel.\<close>

definition numberedChannels :: "channel \<Rightarrow> HttpChannel" where
  "numberedChannels c = mainChannel\<lparr>channelId := c\<rparr>"

text \<open>Two requests, on channels 1 and 2, are both intercepted and await a decision.\<close>

definition twoIntercepted :: outcome where
  "twoIntercepted =
     runSteps
       [(\<lambda>w. (None, enableRequestInterception 0 w)),
        onRequest 1,
        (\<lambda>w. (None, snd (shouldPrepareForIntercept 0 False 1 w))),
        channelIntercepted 0 1,
        onRequest 2,
        (\<lambda>w. (None, snd (shouldPrepareForIntercept 1 False 2 w))),
        channelIntercepted 1 2]
       (exampleWorld onlineContext numberedChannels)"

subsection \<open>The notifications a request receives\<close>

text \<open>
  \<open>ResponseNotification\<close> is a call of \<^verbatim>\<open>_sendOnResponse\<close> (from the observer's
  \<^verbatim>\<open>_onResponse\<close>, or with the forged status from an HSTS upgrade), \<open>InternalRedirect\<close>
  one of \<^verbatim>\<open>_onInternalRedirect\<close>; the others are the stream listener's methods with
  the channel they come from.
\<close>

datatype Notification =
    ResponseNotification bool "nat option" "string option"
  | InternalRedirect channel
  | DataAvailable channel string
  | StartRequest channel
  | StopRequest channel nat

fun deliver :: "requestRef \<Rightarrow> Notification \<Rightarrow> World \<Rightarrow> outcome" where
  "deliver r (ResponseNotification fromCache c t) w = sendOnResponse r fromCache c t w"
| "deliver r (InternalRedirect ch) w = (None, onInternalRedirect r ch w)"
| "deliver r (DataAvailable ch bytes) w = onDataAvailable r ch bytes w"
| "deliver r (StartRequest ch) w = (None, onStartRequest r ch w)"
| "deliver r (StopRequest ch st) w = onStopRequest r ch st w"

fun deliverAll :: "requestRef \<Rightarrow> Notification list \<Rightarrow> World \<Rightarrow> outcome" where
  "deliverAll r [] w = (None, w)"
| "deliverAll r (n # ns) w = andThen (deliver r n w) (deliverAll r ns)"

text \<open>
  The channel a request is on after a list of notifications, and whether every stop
  notification in the list comes from a channel the request is not on at that moment.
\<close>

fun channelAfter :: "channel \<Rightarrow> Notification list \<Rightarrow> channel" where
  "channelAfter cur [] = cur"
| "channelAfter cur (InternalRedirect ch # ns) = channelAfter ch ns"
| "channelAfter cur (n # ns) = channelAfter cur ns"

fun foreignStops :: "channel \<Rightarrow> Notification list \<Rightarrow> bool" where
  "foreignStops cur [] = True"
| "foreignStops cur (InternalRedirect ch # ns) = foreignStops ch ns"
| "foreignStops cur (StopRequest ch st # ns) = (ch \<noteq> cur \<and> foreignStops cur ns)"
| "foreignStops cur (n # ns) = foreignStops cur ns"

text \<open>The terminal event of a request for the status its channel stops with.\<close>

definition terminalEvent :: "World \<Rightarrow> requestRef \<Rightarrow> nat \<Rightarrow> Event" where
  "terminalEvent w r st =
     (if st = 0 then RequestFinished (requestId (requests w r))
      else RequestFailed (requestId (requests w r)) (getNetworkErrorStatusText w st))"

text \<open>No event, or one response event of the request with the given id.\<close>

definition atMostOneResponse :: "string \<Rightarrow> Event list \<Rightarrow> bool" where
  "atMostOneResponse rid evs =
     (case evs of
        [] \<Rightarrow> True
      | [Response rid' fromCache st t] \<Rightarrow> rid' = rid
      | _ \<Rightarrow> False)"

text \<open>
  A request that belongs to page network \<open>pn\<close>, has no response interceptor, has its
  list of body chunks, and has the id \<open>rid\<close>.
\<close>

definition tracked :: "pageNetworkRef \<Rightarrow> string \<Rightarrow> requestRef \<Rightarrow> World \<Rightarrow> bool" where
  "tracked pn rid r w =
     (pageNetwork (requests w r) = Some pn \<and> responseInterceptor (requests w r) = None
      \<and> responseBodyChunks (requests w r) \<noteq> None \<and> requestId (requests w r) = rid)"

text \<open>
  From \<open>w\<close> to \<open>w'\<close> either nothing was emitted and the flag \<open>sentOnResponse\<close> of the
  request is as before, or the flag went from false to true and one response event of
  the request was emitted.
\<close>

definition responseStep :: "pageNetworkRef \<Rightarrow> string \<Rightarrow> requestRef \<Rightarrow> World \<Rightarrow> World \<Rightarrow> bool" where
  "responseStep pn rid r w w' =
     (if sentOnResponse (requests w r)
      then sentOnResponse (requests w' r) \<and> events w' = events w
      else (\<not> sentOnResponse (requests w' r) \<and> events w' = events w)
           \<or> (sentOnResponse (requests w' r)
               \<and> (\<exists>fromCache st t. events w' = events w @ [(pn, Response rid fromCache st t)])))"

text \<open>
  A request on channel 1 that is not intercepted (its request event has been emitted), and
  what it is then notified of: a response, data, a second response notification, an
  internal redirect to channel 5, the stop of the channel it has left, and more data.
\<close>

definition streamingWorld :: outcome where
  "streamingWorld =
     runSteps
       [onRequest 1,
        (\<lambda>w. (None, snd (shouldPrepareForIntercept 0 False 1 w)))]
       (exampleWorld onlineContext (\<lambda>_. mainChannel))"

definition exampleNotifications :: "Notification list" where
  "exampleNotifications =
     [ResponseNotification False None None,
      DataAvailable 1 ''ab'',
      ResponseNotification True None None,
      InternalRedirect 5,
      StopRequest 1 0,
      DataAvailable 5 ''cd'']"

text \<open>
  An intercepted request on channel 1 whose upstream response is being fetched over
  channel 2. Channel 2 answers with a redirect and is redirected to channel 3, for which
  a second request is made; channel 3 answers with status 200.
\<close>

definition fetchChannels :: "channel \<Rightarrow> HttpChannel" where
  "fetchChannels c =
     (if c = 1 then mainChannel
      else if c = 2
      then plainChannel\<lparr>channelId := 8,
             availableResponse :=
               Some \<lparr>status = 302, statusText = ''Found'',
                     headers = [(''Location'', ''/next'')]\<rparr>\<rparr>
      else plainChannel\<lparr>channelId := 8\<rparr>)"

definition redirectedFetch :: outcome where
  "redirectedFetch =
     andThen (interceptedWorld interceptingContext fetchChannels)
       (runSteps
          [interceptResponseBegin 0 2 None None None,
           onResponse False 2,
           onRedirect 2 3 \<lparr>REDIRECT_INTERNAL = False, REDIRECT_STS_UPGRADE = False\<rparr>,
           onRequest 3,
           onResponse False 3])"

subsection \<open>Base64\<close>

text \<open>
  The inverse of \<^const>\<open>btoa\<close>: the position of a character in the alphabet, and the
  bytes that a padded base64 text stands for.
\<close>

definition base64Index :: "char \<Rightarrow> nat" where
  "base64Index c = length (takeWhile (\<lambda>x. x \<noteq> c) base64Alphabet)"

fun fromBase64 :: "string \<Rightarrow> string" where
  "fromBase64 (a # b # c # d # rest) =
     (let i = base64Index a; j = base64Index b
      in if c = CHR ''='' then [char_of (i * 4 + j div 16)]
         else (let k = base64Index c
               in if d = CHR ''=''
                  then [char_of (i * 4 + j div 16), char_of ((j mod 16) * 16 + k div 4)]
                  else [char_of (i * 4 + j div 16), char_of ((j mod 16) * 16 + k div 4),
                        char_of ((k mod 4) * 64 + base64Index d)] @ fromBase64 rest))"
| "fromBase64 _ = []"

subsection \<open>The identity of a request\<close>

definition identityOf :: "NetworkRequest \<Rightarrow> string \<times> string option \<times> string option \<times> nat" where
  "identityOf q = (requestId q, navigationId q, redirectedFromId q, redirectedIndex q)"

text \<open>
  Constructing the further requests of a redirect chain in a world: one request per
  channel, each with the request made before it as \<^verbatim>\<open>redirectedFrom\<close>.
\<close>

fun constructRedirects :: "requestRef \<Rightarrow> channel list \<Rightarrow> World \<Rightarrow> outcome" where
  "constructRedirects previous [] w = (None, w)"
| "constructRedirects previous (ch # rest) w =
     andThen (newNetworkRequest ch (Some previous) w)
       (\<lambda>w'. constructRedirects (requestCount w) rest w')"


section \<open>Verification: base64\<close>

lemma distinct_base64Alphabet: "distinct base64Alphabet"
  by (simp add: base64Alphabet_def)

lemma length_base64Alphabet: "length base64Alphabet = 64"
  by (simp add: base64Alphabet_def)

lemma takeWhile_nth_distinct:
  "distinct xs \<Longrightarrow> i < length xs \<Longrightarrow> length (takeWhile (\<lambda>x. x \<noteq> xs ! i) xs) = i"
proof (induction xs arbitrary: i)
  case Nil
  then show ?case by simp
next
  case (Cons x xs)
  show ?case
  proof (cases i)
    case 0
    then show ?thesis by simp
  next
    case (Suc j)
    then have "xs ! j \<in> set xs" using Cons.prems by simp
    then have "x \<noteq> xs ! j" using Cons.prems(1) by auto
    then show ?thesis using Cons Suc by simp
  qed
qed

lemma base64Index_base64Char: "i < 64 \<Longrightarrow> base64Index (base64Char i) = i"
  unfolding base64Index_def base64Char_def
  using takeWhile_nth_distinct [OF distinct_base64Alphabet, of i]
  by (simp add: length_base64Alphabet)

lemma base64Char_not_pad: "i < 64 \<Longrightarrow> base64Char i \<noteq> CHR ''=''"
proof -
  assume "i < 64"
  then have "base64Char i \<in> set base64Alphabet"
    unfolding base64Char_def by (simp add: length_base64Alphabet)
  moreover have "CHR ''='' \<notin> set base64Alphabet"
    by (simp add: base64Alphabet_def)
  ultimately show ?thesis by auto
qed

lemma decode_first_a:
  fixes x y :: nat
  assumes "x < 256" "y < 256"
  shows "x div 4 < 64" 
  using assms by simp

lemma decode_first_b:
  fixes x y :: nat
  assumes "x < 256" "y < 256"
  shows "(x mod 4) * 16 + y div 16 < 64"
proof -
  have "x mod 4 \<le> 3" by simp
  moreover have "y div 16 \<le> 15" using assms by simp
  ultimately show ?thesis by linarith
qed

lemma decode_first_c:
  fixes x y :: nat
  assumes "y < 256"
  shows "(x div 4) * 4 + ((x mod 4) * 16 + y div 16) div 16 = x"
proof -
  have "y div 16 < 16" using assms by simp
  then have "((x mod 4) * 16 + y div 16) div 16 = x mod 4" by simp
  then show ?thesis by simp
qed

lemma decode_second_a:
  fixes y z :: nat
  assumes "z < 256"
  shows "(y mod 16) * 4 + z div 64 < 64"
proof -
  have "y mod 16 \<le> 15" by simp
  moreover have "z div 64 \<le> 3" using assms by simp
  ultimately show ?thesis by linarith
qed

lemma decode_second_b:
  fixes x y z :: nat
  assumes "y < 256" "z < 256"
  shows "(((x mod 4) * 16 + y div 16) mod 16) * 16 + ((y mod 16) * 4 + z div 64) div 4 = y"
proof -
  have a: "y div 16 < 16" using assms by simp
  have "((x mod 4) * 16 + y div 16) mod 16 = y div 16" using a by simp
  moreover have "z div 64 < 4" using assms by simp
  then have "((y mod 16) * 4 + z div 64) div 4 = y mod 16" by simp
  ultimately show ?thesis by simp
qed

lemma decode_third_b:
  fixes y z :: nat
  assumes "z < 256"
  shows "(((y mod 16) * 4 + z div 64) mod 4) * 64 + z mod 64 = z"
proof -
  have "z div 64 < 4" using assms by simp
  then have "((y mod 16) * 4 + z div 64) mod 4 = z div 64" by simp
  then show ?thesis by simp
qed

lemma fromBase64_quad:
  assumes "i < 64" "j < 64" "k < 64" "l < 64"
  shows "fromBase64 (base64Char i # base64Char j # base64Char k # base64Char l # rest) =
           [char_of (i * 4 + j div 16), char_of ((j mod 16) * 16 + k div 4),
            char_of ((k mod 4) * 64 + l)] @ fromBase64 rest"
  using assms by (simp add: Let_def base64Index_base64Char base64Char_not_pad)

lemma fromBase64_triple:
  assumes "i < 64" "j < 64" "k < 64"
  shows "fromBase64 [base64Char i, base64Char j, base64Char k, CHR ''=''] =
           [char_of (i * 4 + j div 16), char_of ((j mod 16) * 16 + k div 4)]"
  using assms by (simp add: Let_def base64Index_base64Char base64Char_not_pad)

lemma fromBase64_pair:
  assumes "i < 64" "j < 64"
  shows "fromBase64 [base64Char i, base64Char j, CHR ''='', CHR ''=''] =
           [char_of (i * 4 + j div 16)]"
  using assms by (simp add: Let_def base64Index_base64Char)

lemma fromBase64_btoa: "fromBase64 (btoa s) = s"
proof (induction s rule: btoa.induct)
  case 1
  then show ?case by simp
next
  case (2 a)
  define x :: nat where "x = of_char a"
  have x: "x < 256" by (simp add: x_def)
  have b: "btoa [a] = [base64Char (x div 4), base64Char ((x mod 4) * 16), CHR ''='', CHR ''='']"
    by (simp add: x_def Let_def)
  have i: "x div 4 < 64" using decode_first_a [OF x x] .
  have j: "(x mod 4) * 16 < 64" using decode_first_b [OF x, of 0] by simp
  have r: "(x div 4) * 4 + ((x mod 4) * 16) div 16 = x"
    using decode_first_c [of 0 x] by simp
  have "fromBase64 (btoa [a]) = [char_of ((x div 4) * 4 + ((x mod 4) * 16) div 16)]"
    unfolding b using i j by (rule fromBase64_pair)
  also have "\<dots> = [a]" unfolding r by (simp add: x_def)
  finally show ?case .
next
  case (3 a b)
  define x :: nat where "x = of_char a"
  define y :: nat where "y = of_char b"
  have x: "x < 256" and y: "y < 256" by (simp_all add: x_def y_def)
  have bt: "btoa [a, b] = [base64Char (x div 4), base64Char ((x mod 4) * 16 + y div 16),
      base64Char ((y mod 16) * 4), CHR ''='']"
    by (simp add: x_def y_def Let_def)
  have i: "x div 4 < 64" using decode_first_a [OF x x] .
  have j: "(x mod 4) * 16 + y div 16 < 64" using decode_first_b [OF x y] .
  have k: "(y mod 16) * 4 < 64" using decode_second_a [of 0 y] by simp
  have r1: "(x div 4) * 4 + ((x mod 4) * 16 + y div 16) div 16 = x"
    using decode_first_c [OF y] .
  have r2: "(((x mod 4) * 16 + y div 16) mod 16) * 16 + ((y mod 16) * 4) div 4 = y"
    using decode_second_b [OF y, of 0 x] by simp
  have "fromBase64 (btoa [a, b]) =
      [char_of ((x div 4) * 4 + ((x mod 4) * 16 + y div 16) div 16),
       char_of ((((x mod 4) * 16 + y div 16) mod 16) * 16 + ((y mod 16) * 4) div 4)]"
    unfolding bt using i j k by (rule fromBase64_triple)
  also have "\<dots> = [a, b]" unfolding r1 r2 by (simp add: x_def y_def)
  finally show ?case .
next
  case (4 a b c rest)
  define x :: nat where "x = of_char a"
  define y :: nat where "y = of_char b"
  define z :: nat where "z = of_char c"
  have x: "x < 256" and y: "y < 256" and z: "z < 256" by (simp_all add: x_def y_def z_def)
  have bt: "btoa (a # b # c # rest) =
      base64Char (x div 4) # base64Char ((x mod 4) * 16 + y div 16)
        # base64Char ((y mod 16) * 4 + z div 64) # base64Char (z mod 64) # btoa rest"
    by (simp add: x_def y_def z_def Let_def)
  have i: "x div 4 < 64" using decode_first_a [OF x x] .
  have j: "(x mod 4) * 16 + y div 16 < 64" using decode_first_b [OF x y] .
  have k: "(y mod 16) * 4 + z div 64 < 64" using decode_second_a [OF z] .
  have l: "z mod 64 < 64" by simp
  have r1: "(x div 4) * 4 + ((x mod 4) * 16 + y div 16) div 16 = x"
    using decode_first_c [OF y] .
  have r2: "(((x mod 4) * 16 + y div 16) mod 16) * 16 + ((y mod 16) * 4 + z div 64) div 4 = y"
    using decode_second_b [OF y z] .
  have r3: "(((y mod 16) * 4 + z div 64) mod 4) * 64 + z mod 64 = z"
    using decode_third_b [OF z] .
  have ih: "fromBase64 (btoa rest) = rest"
    using 4 by simp
  have "fromBase64 (btoa (a # b # c # rest)) =
      [char_of ((x div 4) * 4 + ((x mod 4) * 16 + y div 16) div 16),
       char_of ((((x mod 4) * 16 + y div 16) mod 16) * 16 + ((y mod 16) * 4 + z div 64) div 4),
       char_of ((((y mod 16) * 4 + z div 64) mod 4) * 64 + z mod 64)] @ fromBase64 (btoa rest)"
    unfolding bt using i j k l by (rule fromBase64_quad)
  also have "\<dots> = a # b # c # rest" unfolding r1 r2 r3 ih by (simp add: x_def y_def z_def)
  finally show ?case .
qed

lemma btoa_inj: "btoa s = btoa t \<Longrightarrow> s = t"
  by (metis fromBase64_btoa)


section \<open>Verification: response storage\<close>

lemma retainedBytes_Nil [simp]: "retainedBytes [] = 0"
  by (simp add: retainedBytes_def)

lemma retainedBytes_Cons [simp]: "retainedBytes ((k, r) # rs) = contribution r + retainedBytes rs"
  by (simp add: retainedBytes_def)

lemma contribution_nonneg: "0 \<le> contribution r"
  by (simp add: contribution_def)

lemma retainedBytes_nonneg: "0 \<le> retainedBytes rs"
  by (induction rs) (auto simp: contribution_def)

lemma retainedBytes_update:
  "retainedBytes (AList.update k v rs) =
     retainedBytes rs - (case map_of rs k of None \<Rightarrow> 0 | Some r \<Rightarrow> contribution r) + contribution v"
  by (induction rs) auto

lemma evictedEmpty_update:
  "evictedEmpty rs \<Longrightarrow> (evicted v \<Longrightarrow> body v = []) \<Longrightarrow> evictedEmpty (AList.update k v rs)"
  by (induction rs) (auto simp: evictedEmpty_def)

lemma map_of_le_retained:
  "map_of rs k = Some r \<Longrightarrow> contribution r \<le> retainedBytes rs"
proof (induction rs)
  case Nil
  then show ?case by simp
next
  case (Cons p rs)
  obtain k' r' where p: "p = (k', r')" by (cases p)
  show ?case
    using Cons retainedBytes_nonneg [of rs] contribution_nonneg [of r']
    by (auto simp: p split: if_splits)
qed

lemma evictLoop_keys:
  "evictLoop t m rs = (t', rs') \<Longrightarrow> map fst rs' = map fst rs"
  by (induction rs arbitrary: t t' rs') (auto simp: Let_def split: if_splits prod.splits)

lemma evictLoop_retained:
  "evictLoop t m rs = (t', rs') \<Longrightarrow> evictedEmpty rs
     \<Longrightarrow> evictedEmpty rs' \<and> (t' < m \<or> retainedBytes rs' = 0)
         \<and> t' - retainedBytes rs' = t - retainedBytes rs"
proof (induction rs arbitrary: t t' rs')
  case Nil
  then show ?case by simp
next
  case (Cons p rs)
  obtain k r where p: "p = (k, r)" by (cases p)
  have len: "int (length (body r)) = contribution r"
    using Cons.prems(2) by (auto simp: p evictedEmpty_def contribution_def)
  have e: "evictedEmpty rs" using Cons.prems(2) by (simp add: p evictedEmpty_def)
  show ?case
  proof (cases "t - int (length (body r)) < m")
    case True
    then have "t' = t - int (length (body r))" "rs' = (k, r\<lparr>body := [], evicted := True\<rparr>) # rs"
      using Cons.prems(1) by (auto simp: p Let_def)
    then show ?thesis
      using True e len Cons.prems(2) by (simp add: p evictedEmpty_def contribution_def)
  next
    case False
    obtain t2 rs2 where rec: "evictLoop (t - int (length (body r))) m rs = (t2, rs2)"
      by (cases "evictLoop (t - int (length (body r))) m rs")
    have tt: "t' = t2" and rr: "rs' = (k, r\<lparr>body := [], evicted := True\<rparr>) # rs2"
      using Cons.prems(1) False rec by (auto simp: p Let_def)
    from Cons.IH [OF rec e] show ?thesis
      using len by (auto simp: p tt rr evictedEmpty_def contribution_def)
  qed
qed

lemma evictLoop_map_of:
  "evictLoop t m rs = (t', rs') \<Longrightarrow> map_of rs k = Some r
     \<Longrightarrow> map_of rs' k = Some r \<or> map_of rs' k = Some (evict r)"
proof (induction rs arbitrary: t t' rs')
  case Nil
  then show ?case by simp
next
  case (Cons p rs)
  obtain k' r' where p: "p = (k', r')" by (cases p)
  show ?case
  proof (cases "t - int (length (body r')) < m")
    case True
    then have "rs' = (k', evict r') # rs"
      using Cons.prems(1) by (auto simp: p Let_def evict_def)
    then show ?thesis using Cons.prems(2) by (auto simp: p)
  next
    case False
    obtain t2 rs2 where rec: "evictLoop (t - int (length (body r'))) m rs = (t2, rs2)"
      by (cases "evictLoop (t - int (length (body r'))) m rs")
    have rr: "rs' = (k', evict r') # rs2"
      using Cons.prems(1) False rec by (auto simp: p Let_def evict_def)
    show ?thesis
    proof (cases "k = k'")
      case True
      then show ?thesis using Cons.prems(2) by (auto simp: p rr)
    next
      case False
      then have "map_of rs k = Some r" using Cons.prems(2) by (simp add: p)
      from Cons.IH [OF rec this] show ?thesis using False by (simp add: rr)
    qed
  qed
qed

lemma evictLoop_map_of_None:
  "evictLoop t m rs = (t', rs') \<Longrightarrow> map_of rs k = None \<Longrightarrow> map_of rs' k = None"
proof -
  assume a: "evictLoop t m rs = (t', rs')" and n: "map_of rs k = None"
  have "map fst rs' = map fst rs" using a by (rule evictLoop_keys)
  then have "fst ` set rs' = fst ` set rs" by (metis set_map)
  then show ?thesis using n by (simp add: map_of_eq_None_iff)
qed

lemma addResponseBody_caps [simp]:
  "maxTotalSize (addResponseBody s k ch b) = maxTotalSize s"
  "maxResponseSize (addResponseBody s k ch b) = maxResponseSize s"
  by (auto simp: addResponseBody_def Let_def split: prod.splits)

lemma addAll_caps [simp]:
  "maxTotalSize (addAll s ops) = maxTotalSize s"
  "maxResponseSize (addAll s ops) = maxResponseSize s"
  by (induction s ops rule: addAll.induct) auto

lemma addResponseBody_inv:
  assumes "storeInv s"
  shows "storeInv (addResponseBody s k ch b)"
proof -
  let ?old = "case map_of (responses s) k of None \<Rightarrow> 0 | Some r \<Rightarrow> contribution r"
  have old_le: "?old \<le> retainedBytes (responses s)"
    using map_of_le_retained [of "responses s" k] retainedBytes_nonneg [of "responses s"]
    by (auto split: option.splits)
  have old_ge: "0 \<le> ?old"
    using contribution_nonneg by (auto split: option.splits)
  have ee: "evictedEmpty (responses s)" and rt: "retainedBytes (responses s) \<le> totalSize s"
    and tm: "totalSize s \<le> maxTotalSize s"
    using assms by (auto simp: storeInv_def)
  show ?thesis
  proof (cases "int (length b) > maxResponseSize s")
    case True
    let ?v = "\<lparr>body = [], evicted = True, encodings = None\<rparr>"
    have "evictedEmpty (AList.update k ?v (responses s))"
      using ee by (rule evictedEmpty_update) simp
    moreover have "retainedBytes (AList.update k ?v (responses s)) \<le> totalSize s"
      using rt old_ge by (simp add: retainedBytes_update contribution_def)
    ultimately show ?thesis
      using True tm by (simp add: addResponseBody_def storeInv_def)
  next
    case False
    let ?v = "\<lparr>body = b, evicted = False, encodings = Some (channelEncodings ch)\<rparr>"
    let ?st = "AList.update k ?v (responses s)"
    let ?run = "totalSize s + int (length b)"
    have est: "evictedEmpty ?st"
      using ee by (rule evictedEmpty_update) simp
    have rst: "retainedBytes ?st = retainedBytes (responses s) - ?old + int (length b)"
      by (simp add: retainedBytes_update contribution_def)
    show ?thesis
    proof (cases "?run > maxTotalSize s")
      case nev: False
      then show ?thesis
        using False est rst rt old_ge
        by (simp add: addResponseBody_def storeInv_def Let_def)
    next
      case ev: True
      obtain t' rs' where loop: "evictLoop ?run (maxTotalSize s) ?st = (t', rs')"
        by (cases "evictLoop ?run (maxTotalSize s) ?st")
      from evictLoop_retained [OF loop est]
      have e': "evictedEmpty rs'" and stop: "t' < maxTotalSize s \<or> retainedBytes rs' = 0"
        and drift: "t' - retainedBytes rs' = ?run - retainedBytes ?st"
        by auto
      have "retainedBytes rs' \<le> t'"
        using drift rst rt old_ge by linarith
      moreover have "t' \<le> maxTotalSize s"
        using stop drift rst rt old_le tm by linarith
      ultimately show ?thesis
        using False ev loop e'
        by (simp add: addResponseBody_def storeInv_def Let_def)
    qed
  qed
qed

lemma addAll_inv: "storeInv s \<Longrightarrow> storeInv (addAll s ops)"
  by (induction s ops rule: addAll.induct) (auto intro: addResponseBody_inv)

lemma newResponseStorage_inv: "0 \<le> maxTotal \<Longrightarrow> storeInv (newResponseStorage maxTotal maxResponse)"
  by (simp add: storeInv_def newResponseStorage_def evictedEmpty_def)

lemma evict_evict [simp]: "evict (evict r) = evict r"
  by (simp add: evict_def)

lemma addResponseBody_other:
  assumes "k' \<noteq> k" and "map_of (responses s) k = Some r"
  shows "map_of (responses (addResponseBody s k' ch b)) k = Some r
       \<or> map_of (responses (addResponseBody s k' ch b)) k = Some (evict r)"
proof (cases "int (length b) > maxResponseSize s")
  case True
  then show ?thesis using assms by (simp add: addResponseBody_def update_conv')
next
  case False
  let ?st = "AList.update k' \<lparr>body = b, evicted = False, encodings = Some (channelEncodings ch)\<rparr> (responses s)"
  have m: "map_of ?st k = Some r" using assms by (simp add: update_conv')
  show ?thesis
  proof (cases "totalSize s + int (length b) > maxTotalSize s")
    case True
    obtain t' rs' where loop: "evictLoop (totalSize s + int (length b)) (maxTotalSize s) ?st = (t', rs')"
      by (cases "evictLoop (totalSize s + int (length b)) (maxTotalSize s) ?st")
    from evictLoop_map_of [OF loop m] show ?thesis
      using \<open>\<not> int (length b) > maxResponseSize s\<close> True loop
      by (simp add: addResponseBody_def Let_def)
  next
    case nev: False
    then show ?thesis using False m by (simp add: addResponseBody_def Let_def)
  qed
qed

lemma addAll_other:
  assumes "\<forall>op \<in> set ops. fst op \<noteq> k"
    and "map_of (responses s) k = Some r \<or> map_of (responses s) k = Some (evict r)"
  shows "map_of (responses (addAll s ops)) k = Some r
       \<or> map_of (responses (addAll s ops)) k = Some (evict r)"
  using assms
proof (induction s ops rule: addAll.induct)
  case (1 s)
  then show ?case by simp
next
  case (2 s rid httpChannel bytes rest)
  have ne: "rid \<noteq> k" using "2.prems"(1) by auto
  have "map_of (responses (addResponseBody s rid httpChannel bytes)) k = Some r
      \<or> map_of (responses (addResponseBody s rid httpChannel bytes)) k = Some (evict r)"
    using "2.prems"(2) addResponseBody_other [OF ne, of s r httpChannel bytes]
      addResponseBody_other [OF ne, of s "evict r" httpChannel bytes]
    by auto
  then show ?case using "2.IH" "2.prems"(1) by simp
qed

lemma addResponseBody_same:
  assumes "\<not> int (length b) > maxResponseSize s"
  shows "map_of (responses (addResponseBody s k ch b)) k
           = Some \<lparr>body = b, evicted = False, encodings = Some (channelEncodings ch)\<rparr>
       \<or> map_of (responses (addResponseBody s k ch b)) k
           = Some (evict \<lparr>body = b, evicted = False, encodings = Some (channelEncodings ch)\<rparr>)"
proof -
  let ?v = "\<lparr>body = b, evicted = False, encodings = Some (channelEncodings ch)\<rparr>"
  let ?st = "AList.update k ?v (responses s)"
  have m: "map_of ?st k = Some ?v" by (simp add: update_conv')
  show ?thesis
  proof (cases "totalSize s + int (length b) > maxTotalSize s")
    case True
    obtain t' rs' where loop: "evictLoop (totalSize s + int (length b)) (maxTotalSize s) ?st = (t', rs')"
      by (cases "evictLoop (totalSize s + int (length b)) (maxTotalSize s) ?st")
    from evictLoop_map_of [OF loop m] show ?thesis
      using assms True loop by (simp add: addResponseBody_def Let_def)
  next
    case False
    then show ?thesis using assms m by (simp add: addResponseBody_def Let_def)
  qed
qed

text \<open>
  Claim C6. When the body is longer than the per-response cap, \<^verbatim>\<open>addResponseBody\<close> only
  records, for the request id, an entry with \<open>evicted = True\<close> and an empty body: the
  other entries and the running total are as before, no byte of the body is kept, and
  \<^verbatim>\<open>getBase64EncodedResponse\<close> answers the evicted marker for that id.
\<close>

theorem addResponseBody_over_response_cap:
  assumes "int (length bytes) > maxResponseSize s"
  shows "addResponseBody s rid ch bytes =
           s\<lparr>responses := AList.update rid
                \<lparr>body = [], evicted = True, encodings = None\<rparr> (responses s)\<rparr>
       \<and> map_of (responses (addResponseBody s rid ch bytes)) rid =
           Some \<lparr>body = [], evicted = True, encodings = None\<rparr>
       \<and> (\<forall>k. k \<noteq> rid \<longrightarrow>
             map_of (responses (addResponseBody s rid ch bytes)) k = map_of (responses s) k)
       \<and> totalSize (addResponseBody s rid ch bytes) = totalSize s
       \<and> getBase64EncodedResponse scs (addResponseBody s rid ch bytes) rid =
           Inr \<lparr>base64body = [], responseEvicted = True\<rparr>"
  using assms by (simp add: addResponseBody_def update_conv' getBase64EncodedResponse_def)

theorem addResponseBody_over_response_cap_witness:
  "int (length ''hello'') > maxResponseSize (newResponseStorage 10 4)
   \<and> map_of (responses (addResponseBody (newResponseStorage 10 4) ''17'' plainChannel ''hello''))
        ''17'' = Some \<lparr>body = [], evicted = True, encodings = None\<rparr>
   \<and> totalSize (addResponseBody (newResponseStorage 10 4) ''17'' plainChannel ''hello'') = 0
   \<and> getBase64EncodedResponse toyConverter
        (addResponseBody (newResponseStorage 10 4) ''17'' plainChannel ''hello'') ''17'' =
        Inr \<lparr>base64body = [], responseEvicted = True\<rparr>"
proof -
  have h: "int (length ''hello'') > maxResponseSize (newResponseStorage 10 4)"
    by (simp add: newResponseStorage_def)
  from addResponseBody_over_response_cap [OF h, of "''17''" plainChannel toyConverter]
  show ?thesis
    by (simp add: newResponseStorage_def addResponseBody_def getBase64EncodedResponse_def)
qed



lemma decodeLoop_error:
  "decodeLoop scs bytes encs = Inl e \<Longrightarrow> \<exists>rv. e = XPCOMException rv"
  by (induction encs arbitrary: bytes)
     (auto simp: convertString_def split: sum.splits)

text \<open>
  Claim C8. \<^verbatim>\<open>getBase64EncodedResponse\<close> throws the not-found error exactly when the id has
  no entry; for an evicted entry it answers \<open>\<lparr>base64body = [], responseEvicted = True\<rparr>\<close>
  whatever the converter service is (nothing is decoded); otherwise it answers
  \<open>decoded\<close> of the stored body and encodings, which runs the converters in the order in
  which the encodings are recorded and base64-encodes the result.
\<close>

theorem getBase64EncodedResponse_cases:
  "(getBase64EncodedResponse scs s rid = Inl (Error (notFoundMessage rid)))
     = (map_of (responses s) rid = None)
   \<and> (\<forall>r. map_of (responses s) rid = Some r \<and> evicted r \<longrightarrow>
         getBase64EncodedResponse scs s rid =
           Inr \<lparr>base64body = [], responseEvicted = True\<rparr>)
   \<and> (\<forall>r. map_of (responses s) rid = Some r \<and> \<not> evicted r \<longrightarrow>
         getBase64EncodedResponse scs s rid =
           decoded scs (body r) (case encodings r of None \<Rightarrow> [] | Some encs \<Rightarrow> encs))
   \<and> (\<forall>bytes enc rest. decoded scs bytes (enc # rest) =
         (case convertString scs bytes enc ''uncompressed'' of
            Inl e \<Rightarrow> Inl e
          | Inr bytes' \<Rightarrow> decoded scs bytes' rest))
   \<and> (\<forall>bytes. decoded scs bytes [] = Inr \<lparr>base64body = btoa bytes, responseEvicted = False\<rparr>)"
  by (auto simp: getBase64EncodedResponse_def decoded_def
      split: option.splits sum.splits dest: decodeLoop_error)

theorem getBase64EncodedResponse_cases_witness:
  "map_of (responses exampleStore) ''3'' = None
   \<and> getBase64EncodedResponse toyConverter exampleStore ''3''
        = Inl (Error (notFoundMessage ''3''))
   \<and> getBase64EncodedResponse toyConverter exampleStore ''1''
        = Inr \<lparr>base64body = [], responseEvicted = True\<rparr>
   \<and> getBase64EncodedResponse toyConverter exampleStore ''2''
        = Inr \<lparr>base64body = ''aGVsbG8='', responseEvicted = False\<rparr>"
  using getBase64EncodedResponse_cases [of toyConverter exampleStore "''3''"]
    getBase64EncodedResponse_cases [of toyConverter exampleStore "''1''"]
    getBase64EncodedResponse_cases [of toyConverter exampleStore "''2''"]
  by (simp add: exampleStore_def getBase64EncodedResponse_def decoded_def convertString_def
      toyConverter_def base64Char_def base64Alphabet_def)

text \<open>
  Claim C2, at a failing input. With both caps at 10 bytes, three bodies of 5 bytes are
  added under one request id: \<^verbatim>\<open>set\<close> replaces the entry each time, but the replaced
  body is never subtracted from \<^verbatim>\<open>_totalSize\<close>. After the third call nothing is retained
  and the running total is 10. A fourth call adds one byte under a new id: the loop
  evicts the new entry as well and ends with the running total still at 10, not under
  the cap.
\<close>

theorem addResponseBody_stale_total:
  "retainedBytes (responses (addAll (newResponseStorage 10 10)
       [(''5'', plainChannel, ''xxxxx''), (''5'', plainChannel, ''xxxxx''),
        (''5'', plainChannel, ''xxxxx'')])) = 0
   \<and> totalSize (addAll (newResponseStorage 10 10)
       [(''5'', plainChannel, ''xxxxx''), (''5'', plainChannel, ''xxxxx''),
        (''5'', plainChannel, ''xxxxx'')]) = 10
   \<and> isEvicted (addAll (newResponseStorage 10 10)
       [(''5'', plainChannel, ''xxxxx''), (''5'', plainChannel, ''xxxxx''),
        (''5'', plainChannel, ''xxxxx''), (''6'', plainChannel, ''y'')]) ''6''
   \<and> \<not> totalSize (addAll (newResponseStorage 10 10)
       [(''5'', plainChannel, ''xxxxx''), (''5'', plainChannel, ''xxxxx''),
        (''5'', plainChannel, ''xxxxx''), (''6'', plainChannel, ''y'')]) < 10"
  by (simp add: newResponseStorage_def addResponseBody_def isEvicted_def contribution_def
      channelEncodings_def plainChannel_def)

text \<open>
  The bound of claim C2 that does hold: after any sequence of calls on a new store with a
  non-negative cap, the retained bytes and the running total are at most the cap, and
  every evicted entry is empty.
\<close>

theorem retainedBytes_le_maxTotalSize:
  assumes "0 \<le> maxTotal"
  shows "retainedBytes (responses (addAll (newResponseStorage maxTotal maxResponse) ops))
           \<le> maxTotal
       \<and> totalSize (addAll (newResponseStorage maxTotal maxResponse) ops) \<le> maxTotal
       \<and> evictedEmpty (responses (addAll (newResponseStorage maxTotal maxResponse) ops))"
proof -
  have "storeInv (addAll (newResponseStorage maxTotal maxResponse) ops)"
    using assms by (intro addAll_inv newResponseStorage_inv)
  then show ?thesis
    by (auto simp: storeInv_def newResponseStorage_def)
qed

theorem retainedBytes_le_maxTotalSize_witness:
  "(0::int) \<le> 10
   \<and> retainedBytes (responses (addAll (newResponseStorage 10 10)
        [(''5'', plainChannel, ''xxxxxx''), (''6'', plainChannel, ''yyyyyy'')])) \<le> 10
   \<and> map_of (responses (addAll (newResponseStorage 10 10)
        [(''5'', plainChannel, ''xxxxxx''), (''6'', plainChannel, ''yyyyyy'')])) ''5''
       = Some \<lparr>body = [], evicted = True, encodings = Some []\<rparr>"
proof -
  have h: "(0::int) \<le> 10" by simp
  from retainedBytes_le_maxTotalSize [OF h, where maxResponse = 10
      and ops = "[(''5'', plainChannel, ''xxxxxx''), (''6'', plainChannel, ''yyyyyy'')]"]
  show ?thesis
    by (simp add: newResponseStorage_def addResponseBody_def channelEncodings_def
        plainChannel_def)
qed


section \<open>Verification: request identity and redirect chains\<close>

lemma digit_char_inj:
  assumes "a < 10" "b < 10" "digit_char a = digit_char b"
  shows "a = b"
proof -
  have d: "distinct ''0123456789''" by simp
  have "length ''0123456789'' = 10" by simp
  with assms d show ?thesis
    unfolding digit_char_def by (metis nth_eq_iff_index_eq)
qed

lemma digit_char_digit: "d < 10 \<Longrightarrow> digit_char d \<in> set ''0123456789''"
proof -
  assume "d < 10"
  then have "d < length ''0123456789''" by simp
  then show ?thesis unfolding digit_char_def by (rule nth_mem)
qed

lemma digit_char_not_dash: "d < 10 \<Longrightarrow> digit_char d \<noteq> CHR ''-''"
  using digit_char_digit [of d] by auto

lemma string_of_nat_not_Nil: "string_of_nat n \<noteq> []"
  by (subst string_of_nat.simps) simp

lemma string_of_nat_no_dash: "CHR ''-'' \<notin> set (string_of_nat n)"
proof (induction n rule: string_of_nat.induct)
  case (1 n)
  show ?case
  proof (cases "n < 10")
    case True
    then show ?thesis
      using digit_char_not_dash [of n] by (subst string_of_nat.simps) auto
  next
    case False
    have "n mod 10 < 10" by simp
    then have "digit_char (n mod 10) \<noteq> CHR ''-''" by (rule digit_char_not_dash)
    then show ?thesis
      using False 1 by (subst string_of_nat.simps) auto
  qed
qed

lemma string_of_nat_inj: "string_of_nat n = string_of_nat m \<Longrightarrow> n = m"
proof (induction n arbitrary: m rule: string_of_nat.induct)
  case (1 n)
  show ?case
  proof (cases "n < 10")
    case n: True
    show ?thesis
    proof (cases "m < 10")
      case True
      then show ?thesis
        using n "1.prems" digit_char_inj [of n m]
        by (simp add: string_of_nat.simps [of n] string_of_nat.simps [of m])
    next
      case False
      then show ?thesis
        using n "1.prems" string_of_nat_not_Nil [of "m div 10"]
        by (simp add: string_of_nat.simps [of n] string_of_nat.simps [of m])
    qed
  next
    case n: False
    show ?thesis
    proof (cases "m < 10")
      case True
      then show ?thesis
        using n "1.prems" string_of_nat_not_Nil [of "n div 10"]
        by (simp add: string_of_nat.simps [of n] string_of_nat.simps [of m])
    next
      case False
      have eq: "string_of_nat (n div 10) @ [digit_char (n mod 10)]
              = string_of_nat (m div 10) @ [digit_char (m mod 10)]"
        using n False "1.prems"
        by (simp add: string_of_nat.simps [of n] string_of_nat.simps [of m])
      then have a: "string_of_nat (n div 10) = string_of_nat (m div 10)"
        and b: "digit_char (n mod 10) = digit_char (m mod 10)"
        by auto
      have "n div 10 = m div 10" using "1.IH" [OF n a] .
      moreover have "n mod 10 = m mod 10"
        using b by (intro digit_char_inj) auto
      ultimately show ?thesis by (metis div_mult_mod_eq)
    qed
  qed
qed

lemma initialRequest_first [simp]:
  "requestId (initialRequest info ch None) = string_of_nat (channelId info)"
  "navigationId (initialRequest info ch None) =
     (if isMainDocumentChannel info then Some (string_of_nat (channelId info)) else None)"
  "redirectedFromId (initialRequest info ch None) = None"
  "redirectedIndex (initialRequest info ch None) = 0"
  by (simp_all add: initialRequest_def Let_def)

lemma initialRequest_redirect [simp]:
  "requestId (initialRequest info ch (Some p)) =
     string_of_nat (channelId info) @ ''-redirect'' @ string_of_nat (redirectedIndex p + 1)"
  "navigationId (initialRequest info ch (Some p)) = navigationId p"
  "redirectedFromId (initialRequest info ch (Some p)) = Some (requestId p)"
  "redirectedIndex (initialRequest info ch (Some p)) = redirectedIndex p + 1"
  by (simp_all add: initialRequest_def Let_def)

lemma length_redirectChainFrom [simp]: "length (redirectChainFrom p rest) = length rest"
  by (induction p rest rule: redirectChainFrom.induct) auto

lemma redirectChainFrom_nth:
  "j < length rest \<Longrightarrow>
     redirectedIndex (redirectChainFrom p rest ! j) = redirectedIndex p + j + 1
   \<and> navigationId (redirectChainFrom p rest ! j) = navigationId p
   \<and> requestId (redirectChainFrom p rest ! j) =
       string_of_nat (channelId (snd (rest ! j))) @ ''-redirect''
         @ string_of_nat (redirectedIndex p + j + 1)
   \<and> redirectedFromId (redirectChainFrom p rest ! j) =
       Some (requestId ((p # redirectChainFrom p rest) ! j))"
proof (induction p rest arbitrary: j rule: redirectChainFrom.induct)
  case (1 previous)
  then show ?case by simp
next
  case (2 previous ch info rest)
  show ?case
  proof (cases j)
    case 0
    then show ?thesis by simp
  next
    case (Suc i)
    then have "i < length rest" using "2.prems" by simp
    from "2.IH" [OF this] show ?thesis by (simp add: Suc)
  qed
qed

lemma dropWhile_no_dash:
  "CHR ''-'' \<notin> set xs \<Longrightarrow> dropWhile (\<lambda>c. c \<noteq> CHR ''-'') (xs @ CHR ''-'' # ys) = CHR ''-'' # ys"
  by (induction xs) auto

lemma dropWhile_no_dash_all:
  "CHR ''-'' \<notin> set xs \<Longrightarrow> dropWhile (\<lambda>c. c \<noteq> CHR ''-'') xs = []"
  by (induction xs) auto

lemma idSuffix_first: "idSuffix (string_of_nat n) = []"
  by (simp add: idSuffix_def dropWhile_no_dash_all string_of_nat_no_dash)

lemma idSuffix_redirect:
  "idSuffix (string_of_nat n @ CHR ''-'' # ys) = CHR ''-'' # ys"
  using dropWhile_no_dash [OF string_of_nat_no_dash, of n ys]
  by (simp add: idSuffix_def)

lemma redirectChain_nth:
  assumes "k < length (redirectChain first rest)"
  shows "redirectedIndex (redirectChain first rest ! k) = k
    \<and> navigationId (redirectChain first rest ! k) =
          (if isMainDocumentChannel (snd first)
           then Some (requestId (redirectChain first rest ! 0)) else None)
    \<and> requestId (redirectChain first rest ! k) =
          (if k = 0 then string_of_nat (channelId (snd first))
           else string_of_nat (channelId (snd (rest ! (k - 1)))) @ ''-redirect''
                  @ string_of_nat k)
    \<and> redirectedFromId (redirectChain first rest ! k) =
          (if k = 0 then None else Some (requestId (redirectChain first rest ! (k - 1))))"
proof -
  let ?q = "initialRequest (snd first) (fst first) None"
  have c: "redirectChain first rest = ?q # redirectChainFrom ?q rest"
    by (simp add: redirectChain_def)
  show ?thesis
  proof (cases k)
    case 0
    then show ?thesis by (simp add: c)
  next
    case (Suc j)
    then have j: "j < length rest" using assms by (simp add: c)
    from redirectChainFrom_nth [OF j, of ?q] show ?thesis
      by (simp add: c Suc)
  qed
qed

lemma length_redirectChain [simp]: "length (redirectChain first rest) = Suc (length rest)"
  by (simp add: redirectChain_def)

lemma redirectChain_idSuffix:
  assumes "k < length (redirectChain first rest)"
  shows "idSuffix (requestId (redirectChain first rest ! k)) =
           (if k = 0 then [] else ''-redirect'' @ string_of_nat k)"
  using redirectChain_nth [OF assms]
  by (simp add: idSuffix_first idSuffix_redirect del: length_redirectChain)

lemma redirectChain_ids_inj:
  assumes "j < length (redirectChain first rest)" "k < length (redirectChain first rest)"
    and "requestId (redirectChain first rest ! j) = requestId (redirectChain first rest ! k)"
  shows "j = k"
proof -
  have "idSuffix (requestId (redirectChain first rest ! j))
      = idSuffix (requestId (redirectChain first rest ! k))"
    using assms(3) by simp
  then have "(if j = 0 then [] else ''-redirect'' @ string_of_nat j)
           = (if k = 0 then [] else ''-redirect'' @ string_of_nat k)"
    using redirectChain_idSuffix [OF assms(1)] redirectChain_idSuffix [OF assms(2)] by simp
  then show ?thesis
    by (auto split: if_splits dest: string_of_nat_inj)
qed

lemma redirectChain_distinct: "distinct (map requestId (redirectChain first rest))"
proof -
  have "\<And>i j. i < length (map requestId (redirectChain first rest))
        \<Longrightarrow> j < length (map requestId (redirectChain first rest)) \<Longrightarrow> i \<noteq> j
        \<Longrightarrow> map requestId (redirectChain first rest) ! i \<noteq> map requestId (redirectChain first rest) ! j"
    using redirectChain_ids_inj [of _ first rest] by (auto simp del: length_redirectChain simp: )
  then show ?thesis by (simp only: distinct_conv_nth) blast
qed

lemma find_distinct_nth:
  assumes "distinct (map f xs)" "j < length xs"
  shows "find (\<lambda>q. f q = f (xs ! j)) xs = Some (xs ! j)"
  using assms
proof (induction xs arbitrary: j)
  case Nil
  then show ?case by simp
next
  case (Cons x xs)
  show ?case
  proof (cases j)
    case 0
    then show ?thesis by simp
  next
    case (Suc i)
    then have i: "i < length xs" using Cons.prems by simp
    then have "f (xs ! i) \<in> f ` set xs" by simp
    then have "f x \<noteq> f (xs ! i)" using Cons.prems(1) by auto
    then show ?thesis using Cons.IH [of i] Cons.prems(1) i by (simp add: Suc)
  qed
qed

lemma redirectChain_path:
  assumes "k < length (redirectChain first rest)" "k \<le> fuel"
  shows "redirectedFromPath fuel (redirectChain first rest) (redirectChain first rest ! k)
       = rev (take (Suc k) (redirectChain first rest))"
  using assms
proof (induction k arbitrary: fuel)
  case 0
  have "redirectedFromId (redirectChain first rest ! 0) = None"
    using redirectChain_nth [of 0 first rest] by simp
  then show ?case
    by (cases fuel) (simp_all add: take_Suc_conv_app_nth redirectChain_def)
next
  case (Suc k)
  then obtain f where f: "fuel = Suc f" and kf: "k \<le> f" by (cases fuel) auto
  have k: "k < length (redirectChain first rest)" using Suc.prems by simp
  have r: "redirectedFromId (redirectChain first rest ! Suc k)
         = Some (requestId (redirectChain first rest ! k))"
    using redirectChain_nth [OF Suc.prems(1)] by simp
  have fnd: "findRequest (redirectChain first rest) (requestId (redirectChain first rest ! k))
           = Some (redirectChain first rest ! k)"
    unfolding findRequest_def
    using find_distinct_nth [OF redirectChain_distinct k] .
  have "redirectedFromPath fuel (redirectChain first rest) (redirectChain first rest ! Suc k)
      = redirectChain first rest ! Suc k
          # redirectedFromPath f (redirectChain first rest) (redirectChain first rest ! k)"
    by (simp add: f r fnd)
  also have "\<dots> = redirectChain first rest ! Suc k # rev (take (Suc k) (redirectChain first rest))"
    using Suc.IH [OF k kf] by simp
  also have "\<dots> = rev (take (Suc (Suc k)) (redirectChain first rest))"
    using Suc.prems(1) by (simp add: take_Suc_conv_app_nth [of "Suc k"])
  finally show ?case .
qed

text \<open>
  Claim C3, as amended. In every redirect chain all requests have the navigation id of
  the first request, which is the first request's id when the first channel is the main
  document channel and is absent otherwise. The redirect ordinal of the \<open>k\<close>-th request
  is \<open>k\<close>, and from the second request on it is the suffix \<^verbatim>\<open>-redirect<k>\<close> of the id;
  the first request has no \<open>redirectedFromId\<close> and every other one has the id of the
  request before it; the ids are pairwise distinct; and following \<open>redirectedFromId\<close>
  by lookup from the \<open>k\<close>-th request passes exactly the requests before it, in reverse
  order, and ends at the first request.
\<close>

theorem redirectChain_lineage:
  assumes "chain = redirectChain first rest"
  shows "(\<forall>q \<in> set chain.
            navigationId q = navigationId (chain ! 0))
       \<and> navigationId (chain ! 0) =
            (if isMainDocumentChannel (snd first) then Some (requestId (chain ! 0)) else None)
       \<and> (\<forall>k < length chain. redirectedIndex (chain ! k) = k)
       \<and> redirectedFromId (chain ! 0) = None
       \<and> (\<forall>k. 0 < k \<and> k < length chain \<longrightarrow>
             redirectedFromId (chain ! k) = Some (requestId (chain ! (k - 1)))
             \<and> idSuffix (requestId (chain ! k)) = ''-redirect'' @ string_of_nat k)
       \<and> distinct (map requestId chain)
       \<and> (\<forall>k < length chain.
             redirectedFromPath (length chain) chain (chain ! k) = rev (take (Suc k) chain))"
proof -
  have nav: "\<forall>q \<in> set chain. navigationId q = navigationId (chain ! 0)"
  proof
    fix q assume "q \<in> set chain"
    then obtain k where k: "k < length chain" and q: "q = chain ! k"
      by (auto simp: in_set_conv_nth)
    have z: "0 < length (redirectChain first rest)" by simp
    show "navigationId q = navigationId (chain ! 0)"
      using redirectChain_nth [of k first rest] redirectChain_nth [OF z] k
      by (simp add: q assms)
  qed
  have z: "0 < length (redirectChain first rest)" by simp
  have nav0: "navigationId (chain ! 0) =
            (if isMainDocumentChannel (snd first) then Some (requestId (chain ! 0)) else None)"
    using redirectChain_nth [OF z] by (simp add: assms)
  have idx: "\<forall>k < length chain. redirectedIndex (chain ! k) = k"
    using redirectChain_nth [of _ first rest] by (simp add: assms)
  have r0: "redirectedFromId (chain ! 0) = None"
    using redirectChain_nth [OF z] by (simp add: assms)
  have link: "\<forall>k. 0 < k \<and> k < length chain \<longrightarrow>
             redirectedFromId (chain ! k) = Some (requestId (chain ! (k - 1)))
             \<and> idSuffix (requestId (chain ! k)) = ''-redirect'' @ string_of_nat k"
  proof (intro allI impI)
    fix k assume k: "0 < k \<and> k < length chain"
    then have kl: "k < length (redirectChain first rest)" by (simp add: assms)
    show "redirectedFromId (chain ! k) = Some (requestId (chain ! (k - 1)))
             \<and> idSuffix (requestId (chain ! k)) = ''-redirect'' @ string_of_nat k"
      using redirectChain_nth [OF kl] redirectChain_idSuffix [OF kl] k
      by (simp add: assms)
  qed
  have dist: "distinct (map requestId chain)"
    unfolding assms by (rule redirectChain_distinct)
  have path: "\<forall>k < length chain.
             redirectedFromPath (length chain) chain (chain ! k) = rev (take (Suc k) chain)"
    unfolding assms using redirectChain_path [of _ first rest "length (redirectChain first rest)"]
    by (simp del: length_redirectChain)
  show ?thesis
    using nav nav0 idx r0 link dist path by blast
qed

theorem redirectChain_lineage_witness:
  "map requestId (redirectChain (1, mainChannel) [(2, plainChannel), (3, plainChannel)])
     = [''7'', ''7-redirect1'', ''7-redirect2'']
   \<and> map navigationId (redirectChain (1, mainChannel) [(2, plainChannel), (3, plainChannel)])
     = [Some ''7'', Some ''7'', Some ''7'']
   \<and> map redirectedFromId (redirectChain (1, mainChannel) [(2, plainChannel), (3, plainChannel)])
     = [None, Some ''7'', Some ''7-redirect1'']
   \<and> distinct (map requestId
        (redirectChain (1, mainChannel) [(2, plainChannel), (3, plainChannel)]))
   \<and> map requestId
        (redirectedFromPath 3
          (redirectChain (1, mainChannel) [(2, plainChannel), (3, plainChannel)])
          (redirectChain (1, mainChannel) [(2, plainChannel), (3, plainChannel)] ! 2))
     = [''7-redirect2'', ''7-redirect1'', ''7'']"
proof -
  note lineage =
    redirectChain_lineage [OF refl, of "(1, mainChannel)" "[(2, plainChannel), (3, plainChannel)]"]
  have ids: "map requestId (redirectChain (1, mainChannel) [(2, plainChannel), (3, plainChannel)])
     = [''7'', ''7-redirect1'', ''7-redirect2'']"
    by (simp add: redirectChain_def initialRequest_def mainChannel_def plainChannel_def
        string_of_nat.simps digit_char_def Let_def)
  have navs: "map navigationId
       (redirectChain (1, mainChannel) [(2, plainChannel), (3, plainChannel)])
     = [Some ''7'', Some ''7'', Some ''7'']"
    by (simp add: redirectChain_def initialRequest_def mainChannel_def plainChannel_def
        string_of_nat.simps digit_char_def Let_def)
  have froms: "map redirectedFromId
       (redirectChain (1, mainChannel) [(2, plainChannel), (3, plainChannel)])
     = [None, Some ''7'', Some ''7-redirect1'']"
    by (simp add: redirectChain_def initialRequest_def mainChannel_def plainChannel_def
        string_of_nat.simps digit_char_def Let_def)
  have dist: "distinct (map requestId
        (redirectChain (1, mainChannel) [(2, plainChannel), (3, plainChannel)]))"
    using lineage by blast
  have len: "length (redirectChain (1, mainChannel) [(2, plainChannel), (3, plainChannel)]) = 3"
    by simp
  have "\<forall>k < length (redirectChain (1, mainChannel) [(2, plainChannel), (3, plainChannel)]).
          redirectedFromPath
            (length (redirectChain (1, mainChannel) [(2, plainChannel), (3, plainChannel)]))
            (redirectChain (1, mainChannel) [(2, plainChannel), (3, plainChannel)])
            (redirectChain (1, mainChannel) [(2, plainChannel), (3, plainChannel)] ! k)
          = rev (take (Suc k)
              (redirectChain (1, mainChannel) [(2, plainChannel), (3, plainChannel)]))"
    using lineage by blast
  moreover have "(2::nat) < 3" by simp
  ultimately have "redirectedFromPath 3
          (redirectChain (1, mainChannel) [(2, plainChannel), (3, plainChannel)])
          (redirectChain (1, mainChannel) [(2, plainChannel), (3, plainChannel)] ! 2)
       = rev (take (Suc 2)
           (redirectChain (1, mainChannel) [(2, plainChannel), (3, plainChannel)]))"
    unfolding len by blast
  then have path: "map requestId
        (redirectedFromPath 3
          (redirectChain (1, mainChannel) [(2, plainChannel), (3, plainChannel)])
          (redirectChain (1, mainChannel) [(2, plainChannel), (3, plainChannel)] ! 2))
     = [''7-redirect2'', ''7-redirect1'', ''7'']"
    using ids by (simp add: rev_map [symmetric])
  show ?thesis
    using ids navs froms dist path by blast
qed

text \<open>
  Claim C3 as stated fails for a chain whose first channel is not the main document
  channel: the requests have no navigation id, so it is not the first request's id.
\<close>

theorem navigationId_subresource_counterexample:
  "\<not> (\<forall>q \<in> set (redirectChain (1, plainChannel) [(2, plainChannel)]).
         navigationId q
           = Some (requestId (redirectChain (1, plainChannel) [(2, plainChannel)] ! 0)))"
  by (simp add: redirectChain_def initialRequest_def plainChannel_def Let_def)


section \<open>Verification: the interception API\<close>

text \<open>The definitions that evaluate a run on the small world.\<close>

lemmas world_defs = exampleWorld_def onRequest_def newNetworkRequest_def initialRequest_def
  andThen_def updRequest_def updPageNetwork_def updInterceptor_def emit_def call_def
  sendOnRequest_def appendExtraHTTPHeaders_def newPageNetwork_def
  shouldPrepareForIntercept_def shouldIntercept_def channelIntercepted_def
  resume_def abort_def failWithErrorCode_def interceptedWorld_def
  onlineContext_def offlineContext_def interceptingContext_def mainChannel_def plainChannel_def
  getProperty_def toPropertyKey_def truthy_def errorMap_def objectPrototypeProperties_def
  Let_def NS_ERROR_OFFLINE_def NS_ERROR_FAILURE_def NS_ERROR_ABORT_def
  NS_ERROR_PORT_ACCESS_NOT_ALLOWED_def NS_ERROR_UNKNOWN_HOST_def NS_ERROR_NET_INTERRUPT_def
  NS_ERROR_CONNECTION_REFUSED_def NS_ERROR_NET_RESET_def NS_ERROR_NET_TIMEOUT_def
  string_of_nat.simps digit_char_def

lemmas stop_defs = onStopRequest_def sendOnResponse_def sendOnResponseImpl_def
  sendOnRequestFailed_def sendOnRequestFailedImpl_def sendOnRequestFinished_def
  sendOnRequestFinishedImpl_def responseHead_def exampleErrorText_def

text \<open>
  Claim C4, at a failing input. In a browser context that is forced offline a request on
  channel 1 is announced and intercepted. \<^verbatim>\<open>channelIntercepted\<close> calls
  \<^verbatim>\<open>abort(Cr.NS_ERROR_OFFLINE)\<close>, but \<^verbatim>\<open>abort\<close> looks its argument up in \<^verbatim>\<open>errorMap\<close>,
  whose keys are the symbolic names: the number is no key, and the interception is
  cancelled with \<^verbatim>\<open>NS_ERROR_FAILURE\<close>. No request event is emitted, and when the channel
  then stops with that status, the only event is \<^verbatim>\<open>requestFailed\<close> with the generic
  failure, not the offline error.
\<close>

theorem offline_abort_uses_generic_failure:
  "fst (interceptedWorld offlineContext (\<lambda>_. mainChannel)) = None
   \<and> calls (snd (interceptedWorld offlineContext (\<lambda>_. mainChannel)))
       = [CancelInterception 1 (JSNumber NS_ERROR_FAILURE)]
   \<and> events (snd (interceptedWorld offlineContext (\<lambda>_. mainChannel))) = []
   \<and> events (snd (andThen (interceptedWorld offlineContext (\<lambda>_. mainChannel))
                      (onStopRequest 0 1 NS_ERROR_FAILURE)))
       = [(0, RequestFailed ''7'' ''NS_ERROR_FAILURE'')]
   \<and> NS_ERROR_FAILURE \<noteq> NS_ERROR_OFFLINE"
  by (simp add: world_defs stop_defs)

text \<open>
  The decision itself is as claim C4 says: with a page network, per-target interception,
  then interception of the browser context, then forced-offline mode; the first that
  holds makes it true.
\<close>

theorem shouldIntercept_precedence:
  "shouldIntercept r w =
     (case pageNetwork (requests w r) of
        None \<Rightarrow> False
      | Some pn \<Rightarrow>
          requestInterceptionEnabled (pageNetworks w pn)
          \<or> contextRequestInterceptionEnabled (browserContext (pageNetworks w pn))
          \<or> onlineOverride (browserContext (pageNetworks w pn)) = Some ''offline'')"
  by (auto simp: shouldIntercept_def split: option.splits)

text \<open>
  Claim C9, at a failing input. A paused request is aborted with the error code
  \<^verbatim>\<open>constructor\<close>, which is none of the names of \<^verbatim>\<open>errorMap\<close>. The property read
  \<^verbatim>\<open>errorMap['constructor']\<close> finds the member inherited from \<^verbatim>\<open>Object.prototype\<close>, which
  is truthy, so the fallback \<^verbatim>\<open>|| Cr.NS_ERROR_FAILURE\<close> is not taken and
  \<^verbatim>\<open>cancelInterception\<close> is called with that function instead of the generic failure.
\<close>

theorem abort_inherited_property_name:
  "fst (andThen (interceptedWorld interceptingContext (\<lambda>_. mainChannel))
          (abortInterceptedRequest 0 ''7'' (JSString ''constructor''))) = None
   \<and> calls (snd (andThen (interceptedWorld interceptingContext (\<lambda>_. mainChannel))
          (abortInterceptedRequest 0 ''7'' (JSString ''constructor''))))
       = [CancelInterception 1 (JSObject ''Object.prototype.constructor'')]
   \<and> JSObject ''Object.prototype.constructor'' \<noteq> JSNumber NS_ERROR_FAILURE
   \<and> map_of errorMap ''constructor'' = None"
  by (simp add: world_defs abortInterceptedRequest_def takeIntercepted_def)

lemma errorMap_truthy: "map_of errorMap name = Some code \<Longrightarrow> code \<noteq> 0"
  by (auto simp: errorMap_def NS_ERROR_OFFLINE_def NS_ERROR_FAILURE_def NS_ERROR_ABORT_def
      NS_ERROR_PORT_ACCESS_NOT_ALLOWED_def NS_ERROR_UNKNOWN_HOST_def NS_ERROR_NET_INTERRUPT_def
      NS_ERROR_CONNECTION_REFUSED_def NS_ERROR_NET_RESET_def NS_ERROR_NET_TIMEOUT_def
      split: if_splits)

text \<open>
  For every other string claim C9 holds: a name of \<^verbatim>\<open>errorMap\<close> cancels the paused
  request with its code, and any other string that is not a property name of
  \<^verbatim>\<open>Object.prototype\<close> cancels it with \<^verbatim>\<open>NS_ERROR_FAILURE\<close>; the command is not
  rejected.
\<close>

theorem abort_errorMap:
  assumes "interceptedChannel (requests w r) = Some ic"
    and "name \<notin> set objectPrototypeProperties"
  shows "abort r (JSString name) w =
           (None,
            updRequest r (\<lambda>q. q\<lparr>interceptedChannel := None\<rparr>)
              (call (CancelInterception ic
                       (JSNumber (case map_of errorMap name of
                                    None \<Rightarrow> NS_ERROR_FAILURE
                                  | Some code \<Rightarrow> code))) w))"
  using assms errorMap_truthy [of name]
  by (auto simp: abort_def failWithErrorCode_def getProperty_def toPropertyKey_def truthy_def
      Let_def split: option.splits)

lemma synthesizeHeaders_calls:
  "synthesizeHeaders ic ch hs w = w\<lparr>calls := calls w @ headerCalls ic ch hs\<rparr>"
  by (induction ic ch hs w rule: synthesizeHeaders.induct) (auto simp: call_def Let_def)

text \<open>
  Claim C10, as amended. A paused request (it has its intercepted channel) is fulfilled
  without a headers list, with a body that decodes. If no upstream response was fetched,
  \<^verbatim>\<open>fulfill\<close> throws at the loop over the headers, after it has synthesized the status line
  and before any header or body is synthesized. If an upstream response was fetched, the
  call is the same as with that response's headers given, it completes, and the channel
  calls are the status line, the upstream headers, and the start and the end of the
  synthesized response.
\<close>

theorem fulfill_headers_precondition:
  assumes "interceptedChannel (requests w r) = Some ic"
    and "decodeBody w base64 = Inr bytes"
  shows "(upstreamResponse w r = None \<longrightarrow>
            fulfill r status0 statusText0 None base64 w =
              (Some (TypeError ''headers is not iterable''),
               call (SynthesizeStatus ic status0 statusText0) w))
       \<and> (\<forall>orig. upstreamResponse w r = Some orig \<longrightarrow>
            fulfill r status0 statusText0 None base64 w =
              fulfill r status0 statusText0 (Some (headers (interceptedHead orig))) base64 w
            \<and> fst (fulfill r status0 statusText0 None base64 w) = None
            \<and> (\<exists>status1 statusText1.
                  calls (snd (fulfill r status0 statusText0 None base64 w)) =
                    calls w
                    @ [SynthesizeStatus ic status1 statusText1]
                    @ headerCalls ic (httpChannel (requests w r)) (headers (interceptedHead orig))
                    @ [StartSynthesizedResponse ic bytes, FinishSynthesizedResponse ic])
            \<and> interceptedChannel
                 (requests (snd (fulfill r status0 statusText0 None base64 w)) r) = None)"
  using assms
  by (auto simp: fulfill_def upstreamResponse_def decodeBody_def synthesizeHeaders_calls
      call_def updRequest_def Let_def split: option.splits)

lemmas fetch_defs = fetchedWorld_def runSteps.simps interceptResponseBegin_def
  interceptResponseEnd_def cookieChannels_def addResponseBody_def channelEncodings_def
  newResponseStorage_def MAX_RESPONSE_STORAGE_SIZE_def setPostData_def responseHead_def

theorem fulfill_headers_precondition_witness:
  "fulfill 0 (Some 204) None None None
     (snd (interceptedWorld interceptingContext (\<lambda>_. mainChannel)))
     = (Some (TypeError ''headers is not iterable''),
        call (SynthesizeStatus 1 (Some 204) None)
          (snd (interceptedWorld interceptingContext (\<lambda>_. mainChannel))))
   \<and> fst (fulfill 0 None None None None (snd fetchedWorld)) = None
   \<and> calls (snd (fulfill 0 None None None None (snd fetchedWorld)))
       = calls (snd fetchedWorld)
         @ [SynthesizeStatus 1 (Some 200) (Some ''OK''),
            SynthesizeHeader 1 ''Set-Cookie'' ''a=b'',
            SetCookieStringFromHttp 1 ''a=b'',
            StartSynthesizedResponse 1 [],
            FinishSynthesizedResponse 1]"
proof -
  have i1: "interceptedChannel
      (requests (snd (interceptedWorld interceptingContext (\<lambda>_. mainChannel))) 0) = Some 1"
    by (simp add: world_defs)
  have d1: "decodeBody (snd (interceptedWorld interceptingContext (\<lambda>_. mainChannel))) None
      = Inr []"
    by (simp add: decodeBody_def)
  have u1: "upstreamResponse (snd (interceptedWorld interceptingContext (\<lambda>_. mainChannel))) 0
      = None"
    by (simp add: upstreamResponse_def world_defs)
  have a: "fulfill 0 (Some 204) None None None
     (snd (interceptedWorld interceptingContext (\<lambda>_. mainChannel)))
     = (Some (TypeError ''headers is not iterable''),
        call (SynthesizeStatus 1 (Some 204) None)
          (snd (interceptedWorld interceptingContext (\<lambda>_. mainChannel))))"
    using fulfill_headers_precondition [OF i1 d1, of "Some 204" None] u1 by blast
  have b: "fst (fulfill 0 None None None None (snd fetchedWorld)) = None
   \<and> calls (snd (fulfill 0 None None None None (snd fetchedWorld)))
       = calls (snd fetchedWorld)
         @ [SynthesizeStatus 1 (Some 200) (Some ''OK''),
            SynthesizeHeader 1 ''Set-Cookie'' ''a=b'',
            SetCookieStringFromHttp 1 ''a=b'',
            StartSynthesizedResponse 1 [],
            FinishSynthesizedResponse 1]"
    by (simp add: world_defs fetch_defs fulfill_def toLowerCase_def lowerChar_def)
  show ?thesis using a b by blast
qed

text \<open>
  Claim C10 as stated fails: when \<^verbatim>\<open>fulfill\<close> throws for the missing headers, the status
  line has already been synthesized on the intercepted channel.
\<close>

theorem fulfill_synthesizes_status_before_failing:
  "fst (fulfill 0 (Some 204) None None None
          (snd (interceptedWorld interceptingContext (\<lambda>_. mainChannel))))
     = Some (TypeError ''headers is not iterable'')
   \<and> calls (snd (fulfill 0 (Some 204) None None None
          (snd (interceptedWorld interceptingContext (\<lambda>_. mainChannel)))))
     = calls (snd (interceptedWorld interceptingContext (\<lambda>_. mainChannel)))
       @ [SynthesizeStatus 1 (Some 204) None]
   \<and> calls (snd (fulfill 0 (Some 204) None None None
          (snd (interceptedWorld interceptingContext (\<lambda>_. mainChannel)))))
     \<noteq> calls (snd (interceptedWorld interceptingContext (\<lambda>_. mainChannel)))"
  by (simp add: world_defs fulfill_def)


section \<open>Verification: disabling interception\<close>

lemma resume_paused:
  assumes "interceptedChannel (requests w r) = Some ic"
  shows "resume r None None None None w =
           (None, w\<lparr>requests := (requests w)(r := passedThrough (requests w r)),
                    calls := calls w @ [ResetInterceptionWithURI ic None]\<rparr>)"
  using assms
  by (simp add: resume_def updRequest_def call_def passedThrough_def noOverride_def Let_def)

lemma resumeAll_paused:
  assumes "distinct rs" and "\<forall>r \<in> set rs. interceptedChannel (requests w r) \<noteq> None"
  shows "resumeAll rs w =
           (None, w\<lparr>requests := (\<lambda>x. if x \<in> set rs then passedThrough (requests w x)
                                      else requests w x),
                    calls := calls w
                      @ map (\<lambda>r. ResetInterceptionWithURI (the (interceptedChannel (requests w r))) None) rs\<rparr>)"
  using assms
proof (induction rs arbitrary: w)
  case Nil
  then show ?case by simp
next
  case (Cons r rs)
  obtain ic where ic: "interceptedChannel (requests w r) = Some ic"
    using Cons.prems(2) by auto
  let ?w1 = "w\<lparr>requests := (requests w)(r := passedThrough (requests w r)),
                calls := calls w @ [ResetInterceptionWithURI ic None]\<rparr>"
  have d: "distinct rs" and nr: "r \<notin> set rs" using Cons.prems(1) by auto
  have p: "\<forall>r' \<in> set rs. interceptedChannel (requests ?w1 r') \<noteq> None"
    using Cons.prems(2) nr by auto
  have same: "map (\<lambda>r'. ResetInterceptionWithURI (the (interceptedChannel (requests ?w1 r'))) None) rs
            = map (\<lambda>r'. ResetInterceptionWithURI (the (interceptedChannel (requests w r'))) None) rs"
    using nr by (intro map_cong) auto
  have f: "(\<lambda>x. if x \<in> set rs then passedThrough (requests ?w1 x) else requests ?w1 x)
         = (\<lambda>x. if x \<in> set (r # rs) then passedThrough (requests w x) else requests w x)"
    using nr by (auto simp: fun_eq_iff)
  show ?case
    using Cons.IH [OF d p] same f
    by (simp add: resume_paused [OF ic] andThen_def ic)
qed

lemma passedThrough_ready:
  assumes "requests w r = passedThrough q"
  shows "onInternalRedirectReady r w =
           (None, updRequest r (\<lambda>q'. q'\<lparr>expectingResumedRequest := None\<rparr>) w)"
  using assms
  by (simp add: onInternalRedirectReady_def passedThrough_def noOverride_def Let_def)


lemmas two_defs = twoIntercepted_def runSteps.simps exampleWorld_def onRequest_def
  newNetworkRequest_def initialRequest_def andThen_def updRequest_def updPageNetwork_def
  updInterceptor_def emit_def call_def sendOnRequest_def appendExtraHTTPHeaders_def
  newPageNetwork_def shouldPrepareForIntercept_def shouldIntercept_def channelIntercepted_def
  enableRequestInterception_def onlineContext_def numberedChannels_def mainChannel_def
  plainChannel_def Let_def string_of_nat.simps digit_char_def awaiting_def



text \<open>
  A request that \<^const>\<open>channelIntercepted\<close> holds for the page is one that
  \<^const>\<open>disableRequestInterception\<close> can resume: it has its intercepted channel.
\<close>

lemma channelIntercepted_awaiting:
  assumes "channelIntercepted r ch w = (None, w')"
    and "pageNetwork (requests w r) = Some pn"
    and "r \<notin> set (awaiting w pn)"
    and "r \<in> set (awaiting w' pn)"
  shows "interceptedChannel (requests w' r) = Some ch"
  using assms
proof -
  have a: "\<And>c v. pageNetworks (snd (abort r c v)) = pageNetworks v"
    by (auto simp: abort_def failWithErrorCode_def call_def updRequest_def Let_def
        split: option.splits if_splits js_value.splits)
  have b: "\<And>v. pageNetworks (snd (resume r None None None None v)) = pageNetworks v"
    by (auto simp: resume_def call_def Let_def andThen_def updRequest_def
        split: option.splits if_splits prod.splits)
  show ?thesis
    using assms a [of "JSNumber NS_ERROR_OFFLINE"] b
    by (auto simp: channelIntercepted_def Let_def awaiting_def updRequest_def
        updPageNetwork_def sendOnRequest_def emit_def
        split: if_splits option.splits dest!: arg_cong [where f = snd])
      (force+)
qed

section \<open>Verification: the events of an exchange\<close>

lemma updPageNetwork_fields [simp]:
  "requests (updPageNetwork pn f w) = requests w"
  "events (updPageNetwork pn f w) = events w"
  "calls (updPageNetwork pn f w) = calls w"
  "channels (updPageNetwork pn f w) = channels w"
  "interceptors (updPageNetwork pn f w) = interceptors w"
  "channelToRequest (updPageNetwork pn f w) = channelToRequest w"
  "getNetworkErrorStatusText (updPageNetwork pn f w) = getNetworkErrorStatusText w"
  "pageNetworks (updPageNetwork pn f w) = (pageNetworks w)(pn := f (pageNetworks w pn))"
  by (simp_all add: updPageNetwork_def)

lemma updRequest_fields [simp]:
  "requests (updRequest r f w) = (requests w)(r := f (requests w r))"
  "events (updRequest r f w) = events w"
  "calls (updRequest r f w) = calls w"
  "channels (updRequest r f w) = channels w"
  "interceptors (updRequest r f w) = interceptors w"
  "channelToRequest (updRequest r f w) = channelToRequest w"
  "getNetworkErrorStatusText (updRequest r f w) = getNetworkErrorStatusText w"
  "pageNetworks (updRequest r f w) = pageNetworks w"
  by (simp_all add: updRequest_def)

lemma emit_fields [simp]:
  "requests (emit pn ev w) = requests w"
  "events (emit pn ev w) = events w @ [(pn, ev)]"
  "calls (emit pn ev w) = calls w"
  "channels (emit pn ev w) = channels w"
  "interceptors (emit pn ev w) = interceptors w"
  "channelToRequest (emit pn ev w) = channelToRequest w"
  "getNetworkErrorStatusText (emit pn ev w) = getNetworkErrorStatusText w"
  "pageNetworks (emit pn ev w) = pageNetworks w"
  by (simp_all add: emit_def)

lemma sendOnResponseImpl_idempotent:
  "sentOnResponse (requests w r) \<Longrightarrow> sendOnResponseImpl r ch fromCache c t w = w"
  by (simp add: sendOnResponseImpl_def)

lemma sendOnResponseImpl_sets_flag:
  "sentOnResponse (requests (sendOnResponseImpl r ch fromCache c t w) r)"
  by (simp add: sendOnResponseImpl_def updRequest_def emit_def Let_def split: option.splits)

lemma responseStep_refl: "responseStep pn rid r w w"
  by (simp add: responseStep_def)

lemma responseStep_same:
  "events w' = events w \<Longrightarrow> sentOnResponse (requests w' r) = sentOnResponse (requests w r)
     \<Longrightarrow> responseStep pn rid r w w'"
  by (simp add: responseStep_def)

lemma responseStep_trans:
  "responseStep pn rid r w w1 \<Longrightarrow> responseStep pn rid r w1 w2 \<Longrightarrow> responseStep pn rid r w w2"
  by (auto simp: responseStep_def split: if_splits)

lemma sendOnResponse_tracked:
  assumes "tracked pn rid r w"
  shows "\<exists>w'. sendOnResponse r fromCache c t w = (None, w') \<and> tracked pn rid r w'
           \<and> httpChannel (requests w' r) = httpChannel (requests w r)
           \<and> getNetworkErrorStatusText w' = getNetworkErrorStatusText w
           \<and> responseStep pn rid r w w'"
  using assms
  by (auto simp: sendOnResponse_def sendOnResponseImpl_def tracked_def responseStep_def
      updRequest_def emit_def Let_def)

lemma onInternalRedirect_tracked:
  assumes "tracked pn rid r w"
  shows "tracked pn rid r (onInternalRedirect r ch w)
       \<and> httpChannel (requests (onInternalRedirect r ch w) r) = ch
       \<and> getNetworkErrorStatusText (onInternalRedirect r ch w) = getNetworkErrorStatusText w
       \<and> responseStep pn rid r w (onInternalRedirect r ch w)"
  using assms
  by (auto simp: onInternalRedirect_def tracked_def responseStep_def updRequest_def Let_def)

lemma onDataAvailable_tracked:
  assumes "tracked pn rid r w"
  shows "\<exists>w'. onDataAvailable r ch bytes w = (None, w') \<and> tracked pn rid r w'
           \<and> httpChannel (requests w' r) = httpChannel (requests w r)
           \<and> getNetworkErrorStatusText w' = getNetworkErrorStatusText w
           \<and> responseStep pn rid r w w'"
proof (cases "ch = httpChannel (requests w r)")
  case False
  then show ?thesis
    using assms by (simp add: onDataAvailable_def responseStep_refl)
next
  case True
  obtain w1 where s: "sendOnResponse r False None None w = (None, w1)"
    and t1: "tracked pn rid r w1"
    and h1: "httpChannel (requests w1 r) = httpChannel (requests w r)"
    and g1: "getNetworkErrorStatusText w1 = getNetworkErrorStatusText w"
    and r1: "responseStep pn rid r w w1"
    using sendOnResponse_tracked [OF assms] by blast
  obtain chunks where c: "responseBodyChunks (requests w1 r) = Some chunks"
    using t1 by (auto simp: tracked_def)
  let ?w2 = "updRequest r (\<lambda>q. q\<lparr>responseBodyChunks := Some (chunks @ [bytes])\<rparr>) w1"
  have o: "onDataAvailable r ch bytes w = (None, ?w2)"
    using True s c by (simp add: onDataAvailable_def andThen_def)
  have t2: "tracked pn rid r ?w2"
    using t1 by (simp add: tracked_def updRequest_def)
  have r2: "responseStep pn rid r w1 ?w2"
    by (rule responseStep_same) (simp_all add: updRequest_def)
  show ?thesis
    using o t2 h1 g1 responseStep_trans [OF r1 r2]
    by (simp add: updRequest_def)
qed

lemma onStopRequest_foreign:
  "ch \<noteq> httpChannel (requests w r) \<Longrightarrow> onStopRequest r ch st w = (None, w)"
  by (simp add: onStopRequest_def)

lemma deliver_tracked:
  assumes "tracked pn rid r w" and "foreignStops (httpChannel (requests w r)) [n]"
  shows "\<exists>w'. deliver r n w = (None, w') \<and> tracked pn rid r w'
           \<and> httpChannel (requests w' r) = channelAfter (httpChannel (requests w r)) [n]
           \<and> getNetworkErrorStatusText w' = getNetworkErrorStatusText w
           \<and> responseStep pn rid r w w'"
proof (cases n)
  case (ResponseNotification fromCache c t)
  then show ?thesis using sendOnResponse_tracked [OF assms(1)] by simp
next
  case (InternalRedirect ch)
  then show ?thesis using onInternalRedirect_tracked [OF assms(1)] by simp
next
  case (DataAvailable ch bytes)
  then show ?thesis using onDataAvailable_tracked [OF assms(1)] by simp
next
  case (StartRequest ch)
  then show ?thesis using assms(1) by (simp add: onStartRequest_def responseStep_refl)
next
  case (StopRequest ch st)
  then show ?thesis
    using assms by (simp add: onStopRequest_foreign responseStep_refl)
qed

lemma foreignStops_Cons:
  "foreignStops cur (n # ns) = (foreignStops cur [n] \<and> foreignStops (channelAfter cur [n]) ns)"
  by (cases n) auto

lemma channelAfter_Cons:
  "channelAfter cur (n # ns) = channelAfter (channelAfter cur [n]) ns"
  by (cases n) auto

lemma deliverAll_tracked:
  assumes "tracked pn rid r w" and "foreignStops (httpChannel (requests w r)) ns"
  shows "\<exists>w'. deliverAll r ns w = (None, w') \<and> tracked pn rid r w'
           \<and> httpChannel (requests w' r) = channelAfter (httpChannel (requests w r)) ns
           \<and> getNetworkErrorStatusText w' = getNetworkErrorStatusText w
           \<and> responseStep pn rid r w w'"
  using assms
proof (induction ns arbitrary: w)
  case Nil
  then show ?case by (simp add: responseStep_refl)
next
  case (Cons n ns)
  have f1: "foreignStops (httpChannel (requests w r)) [n]"
    and f2: "foreignStops (channelAfter (httpChannel (requests w r)) [n]) ns"
    using Cons.prems(2) foreignStops_Cons [of _ n ns] by auto
  obtain w1 where d: "deliver r n w = (None, w1)" and t1: "tracked pn rid r w1"
    and h1: "httpChannel (requests w1 r) = channelAfter (httpChannel (requests w r)) [n]"
    and g1: "getNetworkErrorStatusText w1 = getNetworkErrorStatusText w"
    and r1: "responseStep pn rid r w w1"
    using deliver_tracked [OF Cons.prems(1) f1] by blast
  have f2': "foreignStops (httpChannel (requests w1 r)) ns" using f2 h1 by simp
  obtain w2 where d2: "deliverAll r ns w1 = (None, w2)" and t2: "tracked pn rid r w2"
    and h2: "httpChannel (requests w2 r) = channelAfter (httpChannel (requests w1 r)) ns"
    and g2: "getNetworkErrorStatusText w2 = getNetworkErrorStatusText w1"
    and r2: "responseStep pn rid r w1 w2"
    using Cons.IH [OF t1 f2'] by blast
  have "deliverAll r (n # ns) w = (None, w2)"
    using d d2 by (simp add: andThen_def)
  moreover have "httpChannel (requests w2 r) = channelAfter (httpChannel (requests w r)) (n # ns)"
    using h2 h1 channelAfter_Cons [of _ n ns] by simp
  ultimately show ?case
    using t2 g1 g2 responseStep_trans [OF r1 r2] by auto
qed

lemma onStopRequest_tracked:
  assumes "tracked pn rid r w"
  shows "\<exists>w1 w2. responseStep pn rid r w w1
           \<and> onStopRequest r (httpChannel (requests w r)) st w = (None, w2)
           \<and> events w2 = events w1 @ [(pn, terminalEvent w r st)]
           \<and> (st \<noteq> 0 \<longrightarrow> w1 = w)"
proof (cases "st = 0")
  case False
  let ?w2 = "updRequest r (\<lambda>q. q\<lparr>responseBodyChunks := None\<rparr>) (sendOnRequestFailed r st w)"
  have o: "onStopRequest r (httpChannel (requests w r)) st w = (None, ?w2)"
    using False by (simp add: onStopRequest_def andThen_def)
  have e: "events ?w2 = events w @ [(pn, terminalEvent w r st)]"
    using False assms
    by (simp add: sendOnRequestFailed_def sendOnRequestFailedImpl_def tracked_def
        terminalEvent_def emit_def updRequest_def Let_def)
  show ?thesis
    using o e responseStep_refl [of pn rid r w] by blast
next
  case True
  obtain w1 where s: "sendOnResponse r False None None w = (None, w1)"
    and t1: "tracked pn rid r w1"
    and h1: "httpChannel (requests w1 r) = httpChannel (requests w r)"
    and r1: "responseStep pn rid r w w1"
    using sendOnResponse_tracked [OF assms] by blast
  obtain chunks where c: "responseBodyChunks (requests w1 r) = Some chunks"
    using t1 by (auto simp: tracked_def)
  have p: "pageNetwork (requests w1 r) = Some pn" "responseInterceptor (requests w1 r) = None"
    "requestId (requests w1 r) = rid"
    using t1 by (auto simp: tracked_def)
  have rid: "requestId (requests w r) = rid" using assms by (simp add: tracked_def)
  let ?w2 = "updPageNetwork pn
               (\<lambda>p. p\<lparr>responseStorage :=
                         addResponseBody (responseStorage p) (requestId (requests w1 r))
                           (channels w1 (httpChannel (requests w1 r))) (concat chunks)\<rparr>) w1"
  let ?w3 = "updRequest r (\<lambda>q. q\<lparr>responseBodyChunks := None\<rparr>)
               (sendOnRequestFinishedImpl r (httpChannel (requests ?w2 r)) ?w2)"
  have q2: "requests ?w2 = requests w1" by (simp add: updPageNetwork_def)
  have f: "sendOnRequestFinished r ?w2
         = (None, sendOnRequestFinishedImpl r (httpChannel (requests ?w2 r)) ?w2)"
    using p by (simp add: sendOnRequestFinished_def)
  have o: "onStopRequest r (httpChannel (requests w r)) st w = (None, ?w3)"
    using True s c p f by (simp add: onStopRequest_def andThen_def)
  have e: "events ?w3 = events w1 @ [(pn, terminalEvent w r st)]"
    using True p rid
    by (simp add: sendOnRequestFinishedImpl_def terminalEvent_def emit_def updRequest_def
        updPageNetwork_def Let_def)
  show ?thesis
    using o e r1 True by blast
qed

lemma deliverAll_append:
  "deliverAll r (xs @ ys) w = andThen (deliverAll r xs w) (deliverAll r ys)"
  by (induction xs arbitrary: w) (auto simp: andThen_def split: prod.splits option.splits)

lemma responseStep_events:
  assumes "responseStep pn rid r w w'"
  shows "\<exists>rs. events w' = events w @ map (Pair pn) rs \<and> atMostOneResponse rid rs
             \<and> (sentOnResponse (requests w r) \<longrightarrow> rs = [])"
proof (cases "events w' = events w")
  case True
  then have "events w' = events w @ map (Pair pn) []" by simp
  then show ?thesis by (metis atMostOneResponse_def list.simps(4))
next
  case False
  then obtain fromCache st t where e: "events w' = events w @ [(pn, Response rid fromCache st t)]"
    and n: "\<not> sentOnResponse (requests w r)"
    using assms by (auto simp: responseStep_def split: if_splits)
  have "events w' = events w @ map (Pair pn) [Response rid fromCache st t]"
    using e by simp
  moreover have "atMostOneResponse rid [Response rid fromCache st t]"
    by (simp add: atMostOneResponse_def)
  ultimately show ?thesis using n by blast
qed

text \<open>
  Claim C1, as amended. A request belongs to a page network and has no response
  interceptor. It is notified, in any number and order, of responses, internal
  redirects, data, starts, and stops of channels it is not on, and then of the stop of
  the channel it is on. No call throws, and the events emitted are at most one response
  event of the request followed by exactly one terminal event of the request
  (\<^verbatim>\<open>requestFinished\<close> for status 0, \<^verbatim>\<open>requestFailed\<close> otherwise); if the response event
  had been emitted before, none is emitted. A stop of a channel the request is not on
  emits nothing. For every request, \<^verbatim>\<open>_sendOnResponseImpl\<close> sets the flag
  \<open>sentOnResponse\<close> and does nothing once it is set.
\<close>

theorem exchange_events:
  assumes "tracked pn rid r w"
    and "foreignStops (httpChannel (requests w r)) ns"
  shows "fst (deliverAll r (ns @ [StopRequest (channelAfter (httpChannel (requests w r)) ns) st]) w)
           = None
       \<and> (\<exists>rs. events (snd (deliverAll r
                    (ns @ [StopRequest (channelAfter (httpChannel (requests w r)) ns) st]) w))
                  = events w @ map (Pair pn) (rs @ [terminalEvent w r st])
                \<and> atMostOneResponse rid rs
                \<and> (sentOnResponse (requests w r) \<longrightarrow> rs = []))
       \<and> (\<forall>ch. ch \<noteq> httpChannel (requests w r) \<longrightarrow> onStopRequest r ch st w = (None, w))
       \<and> (\<forall>w' r' ch fromCache c t.
             sentOnResponse (requests (sendOnResponseImpl r' ch fromCache c t w') r')
             \<and> (sentOnResponse (requests w' r') \<longrightarrow>
                  sendOnResponseImpl r' ch fromCache c t w' = w'))"
proof -
  obtain w1 where d: "deliverAll r ns w = (None, w1)" and t1: "tracked pn rid r w1"
    and h1: "httpChannel (requests w1 r) = channelAfter (httpChannel (requests w r)) ns"
    and g1: "getNetworkErrorStatusText w1 = getNetworkErrorStatusText w"
    and r1: "responseStep pn rid r w w1"
    using deliverAll_tracked [OF assms] by blast
  obtain w1' w2 where r2: "responseStep pn rid r w1 w1'"
    and o: "onStopRequest r (httpChannel (requests w1 r)) st w1 = (None, w2)"
    and e: "events w2 = events w1' @ [(pn, terminalEvent w1 r st)]"
    using onStopRequest_tracked [OF t1] by blast
  have te: "terminalEvent w1 r st = terminalEvent w r st"
    using t1 assms(1) g1 by (simp add: terminalEvent_def tracked_def)
  obtain rs where rs: "events w1' = events w @ map (Pair pn) rs"
    and am: "atMostOneResponse rid rs"
    and se: "sentOnResponse (requests w r) \<longrightarrow> rs = []"
    using responseStep_events [OF responseStep_trans [OF r1 r2]] by blast
  have run: "deliverAll r (ns @ [StopRequest (channelAfter (httpChannel (requests w r)) ns) st]) w
           = (None, w2)"
    using d o h1 by (simp add: deliverAll_append andThen_def)
  have ev: "events w2 = events w @ map (Pair pn) (rs @ [terminalEvent w r st])"
    using e rs te by simp
  show ?thesis
    using run ev am se sendOnResponseImpl_idempotent sendOnResponseImpl_sets_flag
      onStopRequest_foreign
    by (simp del: deliverAll.simps) blast
qed

lemmas stream_defs = streamingWorld_def runSteps.simps exampleWorld_def onRequest_def
  newNetworkRequest_def initialRequest_def andThen_def sendOnRequest_def
  appendExtraHTTPHeaders_def newPageNetwork_def shouldPrepareForIntercept_def
  shouldIntercept_def onlineContext_def mainChannel_def plainChannel_def Let_def
  string_of_nat.simps digit_char_def updRequest_def updPageNetwork_def emit_def

lemmas deliver_defs = exampleNotifications_def sendOnResponse_def sendOnResponseImpl_def
  onInternalRedirect_def onDataAvailable_def onStartRequest_def onStopRequest_def
  sendOnRequestFinished_def sendOnRequestFinishedImpl_def sendOnRequestFailed_def
  sendOnRequestFailedImpl_def responseHead_def addResponseBody_def channelEncodings_def
  newResponseStorage_def MAX_RESPONSE_STORAGE_SIZE_def

theorem exchange_events_witness:
  "tracked 0 ''7'' 0 (snd streamingWorld)
   \<and> foreignStops (httpChannel (requests (snd streamingWorld) 0)) exampleNotifications
   \<and> channelAfter (httpChannel (requests (snd streamingWorld) 0)) exampleNotifications = 5
   \<and> fst (deliverAll 0 (exampleNotifications @ [StopRequest 5 0]) (snd streamingWorld)) = None
   \<and> events (snd (deliverAll 0 (exampleNotifications @ [StopRequest 5 0]) (snd streamingWorld)))
       = [(0, Request ''7'' False None (Some ''7'')),
          (0, Response ''7'' False 200 ''OK''),
          (0, RequestFinished ''7'')]"
proof -
  have h1: "tracked 0 ''7'' 0 (snd streamingWorld)"
    by (simp add: tracked_def stream_defs)
  have c: "httpChannel (requests (snd streamingWorld) 0) = 1"
    by (simp add: stream_defs)
  have h2: "foreignStops (httpChannel (requests (snd streamingWorld) 0)) exampleNotifications"
    by (simp add: c exampleNotifications_def)
  have a: "channelAfter (httpChannel (requests (snd streamingWorld) 0)) exampleNotifications = 5"
    by (simp add: c exampleNotifications_def)
  from exchange_events [OF h1 h2, of 0]
  have ok: "fst (deliverAll 0 (exampleNotifications @ [StopRequest 5 0]) (snd streamingWorld))
          = None"
    unfolding a by blast
  have ev: "events (snd (deliverAll 0 (exampleNotifications @ [StopRequest 5 0])
                      (snd streamingWorld)))
       = [(0, Request ''7'' False None (Some ''7'')),
          (0, Response ''7'' False 200 ''OK''),
          (0, RequestFinished ''7'')]"
    by (simp add: stream_defs deliver_defs)
  show ?thesis using h1 h2 a ok ev by blast
qed

lemmas fetch_run_defs = redirectedFetch_def interceptedWorld_def runSteps.simps
  exampleWorld_def onRequest_def newNetworkRequest_def initialRequest_def andThen_def
  sendOnRequest_def appendExtraHTTPHeaders_def newPageNetwork_def
  shouldPrepareForIntercept_def shouldIntercept_def channelIntercepted_def
  interceptingContext_def onlineContext_def mainChannel_def plainChannel_def fetchChannels_def
  Let_def string_of_nat.simps digit_char_def updRequest_def updPageNetwork_def
  updInterceptor_def emit_def call_def
  interceptResponseBegin_def onResponse_def onRedirect_def expectRedirect_def
  sendOnResponse_def sendOnResponseImpl_def interceptOnResponse_def
  interceptOnRequestFinished_def interceptorChannel_def isRedirectResponse_def
  interceptAddResponseBody_def sendOnRequestFinished_def sendOnRequestFinishedImpl_def
  responseHead_def

text \<open>
  Claim C1 as stated fails for a request with a response interceptor that has not stored
  its upstream response yet. The upstream fetch of an intercepted request is redirected;
  the request made for the redirect target (id \<^verbatim>\<open>8-redirect1\<close>, on channel 3) inherits
  the interceptor. When channel 3 stops with status 0, its response is not a redirect and
  is dropped: neither \<^verbatim>\<open>requestFinished\<close> nor \<^verbatim>\<open>requestFailed\<close> is emitted for that
  channel (the events are sent when the intercepted request is fulfilled).
\<close>

theorem intercepted_completion_emits_nothing:
  "fst redirectedFetch = None
   \<and> events (snd redirectedFetch)
       = [(0, Request ''7'' True None (Some ''7'')),
          (0, Response ''7'' False 302 ''Found''),
          (0, RequestFinished ''7''),
          (0, Request ''8-redirect1'' False (Some ''7'') (Some ''7''))]
   \<and> pageNetwork (requests (snd redirectedFetch) 1) = Some 0
   \<and> httpChannel (requests (snd redirectedFetch) 1) = 3
   \<and> fst (onStopRequest 1 3 0 (snd redirectedFetch)) = None
   \<and> events (snd (onStopRequest 1 3 0 (snd redirectedFetch))) = events (snd redirectedFetch)"
  by (simp add: fetch_run_defs onStopRequest_def)


section \<open>Verification: the constructor\<close>

lemma appendExtraHTTPHeaders_requests [simp]:
  "requests (appendExtraHTTPHeaders ch hs w) = requests w"
proof (cases hs)
  case None
  then show ?thesis by (simp add: appendExtraHTTPHeaders_def)
next
  case (Some l)
  have "requests (foldl (\<lambda>w' (name, value). call (SetRequestHeader ch name value) w') w l)
      = requests w"
    by (induction l arbitrary: w) (auto simp: call_def)
  then show ?thesis by (simp add: appendExtraHTTPHeaders_def Some)
qed

lemma sendOnRequest_requests [simp]: "requests (sendOnRequest r b w) = requests w"
  by (simp add: sendOnRequest_def split: option.splits)

lemma sendOnRequestFinishedImpl_requests [simp]:
  "requests (sendOnRequestFinishedImpl r ch w) = requests w"
  by (simp add: sendOnRequestFinishedImpl_def Let_def split: option.splits)

lemma sendOnRequestFinished_requests:
  "sendOnRequestFinished r w = (None, w') \<Longrightarrow> requests w' = requests w"
  by (auto simp: sendOnRequestFinished_def interceptOnRequestFinished_def
      split: option.splits sum.splits bool.splits)

lemma updInterceptor_requests [simp]: "requests (updInterceptor ic f w) = requests w"
  by (simp add: updInterceptor_def)

lemma updRequest_requests: "requests (updRequest r f w) = (requests w)(r := f (requests w r))"
  by (simp add: updRequest_def)

lemma newNetworkRequest_identity:
  assumes "newNetworkRequest ch redirectedFrom w = (None, w')"
  shows "identityOf (requests w' (requestCount w)) =
           identityOf (initialRequest (channels w ch) ch (map_option (requests w) redirectedFrom))
       \<and> (\<forall>x. x \<noteq> requestCount w \<longrightarrow> identityOf (requests w' x) = identityOf (requests w x))"
proof -
  let ?r = "requestCount w"
  let ?q = "initialRequest (channels w ch) ch (map_option (requests w) redirectedFrom)"
  let ?w1 = "w\<lparr>requestCount := ?r + 1,
                channelToRequest := (channelToRequest w)(ch \<mapsto> ?r),
                requests := (requests w)(?r := ?q)\<rparr>"
  have "\<exists>w3. (case redirectedFrom of
              None \<Rightarrow> (None, ?w1)
            | Some previous \<Rightarrow>
                andThen (sendOnRequestFinished previous ?w1)
                  (\<lambda>w2. (None,
                          case responseInterceptor (requests w2 previous) of
                            None \<Rightarrow> w2
                          | Some ic \<Rightarrow>
                              updInterceptor ic (\<lambda>i. i\<lparr>finalRequest := ?r\<rparr>)
                                (updRequest ?r (\<lambda>q'. q'\<lparr>responseInterceptor := Some ic\<rparr>) w2))))
            = (None, w3)"
    using assms
    by (cases redirectedFrom)
       (auto simp: newNetworkRequest_def Let_def andThen_def split: prod.splits option.splits)
  then obtain w3 where w3: "(case redirectedFrom of
              None \<Rightarrow> (None, ?w1)
            | Some previous \<Rightarrow>
                andThen (sendOnRequestFinished previous ?w1)
                  (\<lambda>w2. (None,
                          case responseInterceptor (requests w2 previous) of
                            None \<Rightarrow> w2
                          | Some ic \<Rightarrow>
                              updInterceptor ic (\<lambda>i. i\<lparr>finalRequest := ?r\<rparr>)
                                (updRequest ?r (\<lambda>q'. q'\<lparr>responseInterceptor := Some ic\<rparr>) w2))))
            = (None, w3)" ..
  have id3: "\<forall>x. identityOf (requests w3 x) = identityOf (requests ?w1 x)"
  proof (cases redirectedFrom)
    case None
    then show ?thesis using w3 by simp
  next
    case (Some previous)
    then obtain w2 where f: "sendOnRequestFinished previous ?w1 = (None, w2)"
      and e: "w3 = (case responseInterceptor (requests w2 previous) of
                      None \<Rightarrow> w2
                    | Some ic \<Rightarrow>
                        updInterceptor ic (\<lambda>i. i\<lparr>finalRequest := ?r\<rparr>)
                          (updRequest ?r (\<lambda>q'. q'\<lparr>responseInterceptor := Some ic\<rparr>) w2))"
      using w3 by (auto simp: andThen_def split: prod.splits option.splits)
    have "requests w2 = requests ?w1" using f by (rule sendOnRequestFinished_requests)
    then show ?thesis
      unfolding e by (auto simp: identityOf_def updRequest_requests split: option.splits)
  qed
  have id': "\<forall>x. identityOf (requests w' x) = identityOf (requests w3 x)"
    using assms w3
    by (auto simp: newNetworkRequest_def Let_def andThen_def identityOf_def updRequest_requests
        split: option.splits)
  show ?thesis
    using id3 id' by simp
qed

lemma call_fields [simp]:
  "requests (call c w) = requests w"
  "channels (call c w) = channels w"
  "requestCount (call c w) = requestCount w"
  by (simp_all add: call_def)

lemma appendExtraHTTPHeaders_channels [simp]:
  "channels (appendExtraHTTPHeaders ch hs w) = channels w"
  "requestCount (appendExtraHTTPHeaders ch hs w) = requestCount w"
proof -
  have "\<And>l w. channels (foldl (\<lambda>w' (name, value). call (SetRequestHeader ch name value) w') w l)
      = channels w
    \<and> requestCount (foldl (\<lambda>w' (name, value). call (SetRequestHeader ch name value) w') w l)
      = requestCount w"
  proof -
    fix l w
    show "channels (foldl (\<lambda>w' (name, value). call (SetRequestHeader ch name value) w') w l)
      = channels w
    \<and> requestCount (foldl (\<lambda>w' (name, value). call (SetRequestHeader ch name value) w') w l)
      = requestCount w"
      by (induction l arbitrary: w) auto
  qed
  then show "channels (appendExtraHTTPHeaders ch hs w) = channels w"
    "requestCount (appendExtraHTTPHeaders ch hs w) = requestCount w"
    by (auto simp: appendExtraHTTPHeaders_def split: option.splits)
qed

lemma sendOnRequest_channels [simp]:
  "channels (sendOnRequest r b w) = channels w"
  "requestCount (sendOnRequest r b w) = requestCount w"
  by (simp_all add: sendOnRequest_def emit_def split: option.splits)

lemma sendOnRequestFinished_channels:
  "sendOnRequestFinished r w = (None, w')
     \<Longrightarrow> channels w' = channels w \<and> requestCount w' = requestCount w"
  by (auto simp: sendOnRequestFinished_def interceptOnRequestFinished_def
      sendOnRequestFinishedImpl_def emit_def Let_def
      split: option.splits sum.splits bool.splits)

lemma newNetworkRequest_channels:
  assumes "newNetworkRequest ch redirectedFrom w = (None, w')"
  shows "channels w' = channels w \<and> requestCount w' = requestCount w + 1"
proof (cases redirectedFrom)
  case None
  then show ?thesis
    using assms
    by (auto simp: newNetworkRequest_def Let_def andThen_def updRequest_def
        split: option.splits)
next
  case (Some previous)
  let ?w1 = "w\<lparr>requestCount := requestCount w + 1,
                channelToRequest := (channelToRequest w)(ch \<mapsto> requestCount w),
                requests := (requests w)
                  (requestCount w :=
                     initialRequest (channels w ch) ch (map_option (requests w) redirectedFrom))\<rparr>"
  obtain w2 where f: "sendOnRequestFinished previous ?w1 = (None, w2)"
    using assms Some
    by (auto simp: newNetworkRequest_def Let_def andThen_def split: prod.splits option.splits)
  have c2: "channels w2 = channels w \<and> requestCount w2 = requestCount w + 1"
    using sendOnRequestFinished_channels [OF f] by simp
  show ?thesis
    using assms Some f c2
    by (auto simp: newNetworkRequest_def Let_def andThen_def updRequest_def updInterceptor_def
        split: option.splits)
qed

lemma identityOf_initialRequest_cong:
  "identityOf p = identityOf p'
     \<Longrightarrow> identityOf (initialRequest info ch (Some p)) = identityOf (initialRequest info ch (Some p'))"
  by (simp add: identityOf_def initialRequest_def Let_def)

lemma constructRedirects_chain:
  assumes "constructRedirects previous chs w = (None, w')"
    and "identityOf (requests w previous) = identityOf p"
    and "previous < requestCount w"
  shows "map (\<lambda>i. identityOf (requests w' (requestCount w + i))) [0..<length chs]
           = map identityOf (redirectChainFrom p (map (\<lambda>c. (c, channels w c)) chs))
       \<and> (\<forall>x < requestCount w. identityOf (requests w' x) = identityOf (requests w x))"
  using assms
proof (induction chs arbitrary: previous w p)
  case Nil
  then show ?case by simp
next
  case (Cons ch chs)
  obtain w1 where n: "newNetworkRequest ch (Some previous) w = (None, w1)"
    and r: "constructRedirects (requestCount w) chs w1 = (None, w')"
    using Cons.prems(1) by (auto simp: andThen_def split: prod.splits option.splits)
  let ?q = "initialRequest (channels w ch) ch (Some p)"
  have c1: "channels w1 = channels w" and k1: "requestCount w1 = requestCount w + 1"
    using newNetworkRequest_channels [OF n] by auto
  have i1: "identityOf (requests w1 (requestCount w)) = identityOf ?q"
    using newNetworkRequest_identity [OF n] Cons.prems(2)
      identityOf_initialRequest_cong [of "requests w previous" p]
    by simp
  have o1: "\<forall>x. x \<noteq> requestCount w \<longrightarrow> identityOf (requests w1 x) = identityOf (requests w x)"
    using newNetworkRequest_identity [OF n] by blast
  have lt: "requestCount w < requestCount w1" using k1 by simp
  from Cons.IH [OF r i1 lt]
  have m: "map (\<lambda>i. identityOf (requests w' (requestCount w1 + i))) [0..<length chs]
           = map identityOf (redirectChainFrom ?q (map (\<lambda>c. (c, channels w1 c)) chs))"
    and o: "\<forall>x < requestCount w1. identityOf (requests w' x) = identityOf (requests w1 x)"
    by auto
  have h: "identityOf (requests w' (requestCount w)) = identityOf ?q"
    using o lt i1 by simp
  have sh: "map (\<lambda>i. identityOf (requests w' (requestCount w + i))) [0..<length (ch # chs)]
          = identityOf (requests w' (requestCount w))
            # map (\<lambda>i. identityOf (requests w' (requestCount w1 + i))) [0..<length chs]"
    by (simp add: k1 upt_rec [of 0] map_Suc_upt [symmetric] del: upt_Suc)
  have old: "\<forall>x < requestCount w. identityOf (requests w' x) = identityOf (requests w x)"
    using o o1 k1 by simp
  show ?case
    using sh h m old by (simp add: c1)
qed

text \<open>
  The requests constructed in a world for the channels of a redirect chain have the
  identities of \<^const>\<open>redirectChain\<close>: the chains of the lineage theorem are the ones the
  constructor builds.
\<close>

lemma newNetworkRequest_redirectChain:
  assumes "newNetworkRequest c0 None w = (None, w0)"
    and "constructRedirects (requestCount w) chs w0 = (None, w')"
  shows "map (\<lambda>i. identityOf (requests w' (requestCount w + i))) [0..<Suc (length chs)]
           = map identityOf (redirectChain (c0, channels w c0) (map (\<lambda>c. (c, channels w c)) chs))"
proof -
  let ?p = "initialRequest (channels w c0) c0 None"
  have c0: "channels w0 = channels w" and k0: "requestCount w0 = requestCount w + 1"
    using newNetworkRequest_channels [OF assms(1)] by auto
  have i0: "identityOf (requests w0 (requestCount w)) = identityOf ?p"
    using newNetworkRequest_identity [OF assms(1)] by simp
  have lt: "requestCount w < requestCount w0" using k0 by simp
  from constructRedirects_chain [OF assms(2) i0 lt]
  have m: "map (\<lambda>i. identityOf (requests w' (requestCount w0 + i))) [0..<length chs]
           = map identityOf (redirectChainFrom ?p (map (\<lambda>c. (c, channels w0 c)) chs))"
    and o: "\<forall>x < requestCount w0. identityOf (requests w' x) = identityOf (requests w0 x)"
    by auto
  have h: "identityOf (requests w' (requestCount w)) = identityOf ?p"
    using o lt i0 by simp
  have sh: "map (\<lambda>i. identityOf (requests w' (requestCount w + i))) [0..<Suc (length chs)]
          = identityOf (requests w' (requestCount w))
            # map (\<lambda>i. identityOf (requests w' (requestCount w0 + i))) [0..<length chs]"
    by (simp add: k0 upt_rec [of 0] map_Suc_upt [symmetric] del: upt_Suc)
  show ?thesis
    using sh h m by (simp add: c0 redirectChain_def)
qed

end
